theory Spec2Isabelle
  imports Main "HOL-Library.List_Lexorder"
begin

section \<open>JavaScript values\<close>

text \<open>
  A JavaScript string is a sequence of UTF-16 code units; \<open>length\<close>, \<open>slice\<close>,
  \<open>includes\<close> and a regular expression without the \<open>u\<close> flag all count code units.
  A string is therefore a list of code units, each a natural number; \<open>asc\<close> writes an
  ASCII literal.
\<close>

type_synonym jsstring = "nat list"

definition asc :: "string \<Rightarrow> jsstring" where
  "asc s = map of_char s"

text \<open>
  A JavaScript number is modelled as an integer or \<open>NaN\<close> (\<open>None\<close>). Every number of
  \<open>timeline.ts\<close> is an integer far below \<open>2^53\<close> in magnitude or \<open>NaN\<close>, so the
  double arithmetic of the source is exact on them. Arithmetic propagates \<open>NaN\<close>, a
  comparison with \<open>NaN\<close> is false, and \<open>Math.max\<close> and \<open>Math.min\<close> return \<open>NaN\<close>
  when an argument is \<open>NaN\<close>.
\<close>

type_synonym number = "int option"

definition jsArith :: "(int \<Rightarrow> int \<Rightarrow> int) \<Rightarrow> number \<Rightarrow> number \<Rightarrow> number" where
  "jsArith f a b = (case a of None \<Rightarrow> None | Some x \<Rightarrow> (case b of None \<Rightarrow> None | Some y \<Rightarrow> Some (f x y)))"

definition jsPlus :: "number \<Rightarrow> number \<Rightarrow> number" where
  "jsPlus = jsArith (+)"

definition jsMinus :: "number \<Rightarrow> number \<Rightarrow> number" where
  "jsMinus = jsArith (-)"

definition jsTimes :: "number \<Rightarrow> number \<Rightarrow> number" where
  "jsTimes = jsArith (*)"

definition mathMax :: "number \<Rightarrow> number \<Rightarrow> number" where
  "mathMax = jsArith max"

definition mathMin :: "number \<Rightarrow> number \<Rightarrow> number" where
  "mathMin = jsArith min"

definition jsGt :: "number \<Rightarrow> number \<Rightarrow> bool" where
  "jsGt a b = (case a of None \<Rightarrow> False | Some x \<Rightarrow> (case b of None \<Rightarrow> False | Some y \<Rightarrow> y < x))"

text \<open>
  \<open>Math.round(n / d)\<close> for an integer \<open>n\<close> and a positive integer \<open>d\<close>: the nearest
  integer, a tie going up.
\<close>

definition mathRoundDiv :: "number \<Rightarrow> int \<Rightarrow> number" where
  "mathRoundDiv a d = (case a of None \<Rightarrow> None | Some n \<Rightarrow> Some ((2 * n + d) div (2 * d)))"

text \<open>
  \<open>String.prototype.slice(start, end)\<close>: a negative index counts from the end of the
  string, and both indices are clamped to the string.
\<close>

definition slice :: "jsstring \<Rightarrow> int \<Rightarrow> int \<Rightarrow> jsstring" where
  "slice s start end =
     (let len = int (length s);
          from = (if start < 0 then max (len + start) 0 else min start len);
          to = (if end < 0 then max (len + end) 0 else min end len)
      in take (nat (max (to - from) 0)) (drop (nat from) s))"

section \<open>Text utilities\<close>

text \<open>
  The template literal of \<open>clampText\<close> ends, in the source file as it is stored, with
  the three characters U+00E2, U+20AC, U+00A6 (the bytes of U+2026, the horizontal
  ellipsis, read as Windows-1252 and stored again as UTF-8).
\<close>

definition clampSuffix :: jsstring where
  "clampSuffix = [0xE2, 0x20AC, 0xA6]"

definition clampText :: "jsstring \<Rightarrow> int \<Rightarrow> jsstring" where
  "clampText input maxChars =
     (if int (length input) \<le> maxChars then input
      else slice input 0 (maxChars - 1) @ clampSuffix)"

text \<open>
  \<open>String.prototype.includes\<close>: the search string occurs as a contiguous run.
\<close>

fun includesStr :: "jsstring \<Rightarrow> jsstring \<Rightarrow> bool" where
  "includesStr [] pat = (pat = [])"
| "includesStr (c # cs) pat = (take (length pat) (c # cs) = pat \<or> includesStr cs pat)"

text \<open>
  \<open>String.prototype.replace\<close> with a search string: the first occurrence only is
  replaced (the replacement \<open>BE\<close> holds no \<open>$\<close> pattern).
\<close>

fun replaceFirst :: "jsstring \<Rightarrow> jsstring \<Rightarrow> jsstring \<Rightarrow> jsstring" where
  "replaceFirst pat rep [] = (if pat = [] then rep else [])"
| "replaceFirst pat rep (c # cs) =
     (if take (length pat) (c # cs) = pat then rep @ drop (length pat) (c # cs)
      else c # replaceFirst pat rep cs)"

text \<open>
  The character classes of the regular expression of \<open>compactReleaseLabel\<close>:
  \<open>\d\<close> and \<open>.\<close> inside brackets, \<open>\s\<close> (white space and line terminators), and the
  dot outside brackets (every code unit but a line terminator).
\<close>

definition isDigit :: "nat \<Rightarrow> bool" where
  "isDigit c = (48 \<le> c \<and> c \<le> 57)"

definition isVersionChar :: "nat \<Rightarrow> bool" where
  "isVersionChar c = (isDigit c \<or> c = 46)"

definition isLineTerminator :: "nat \<Rightarrow> bool" where
  "isLineTerminator c = (c = 0x0A \<or> c = 0x0D \<or> c = 0x2028 \<or> c = 0x2029)"

definition isSpace :: "nat \<Rightarrow> bool" where
  "isSpace c = (c = 0x09 \<or> c = 0x0B \<or> c = 0x0C \<or> c = 0x20 \<or> c = 0xA0 \<or> c = 0x1680
     \<or> (0x2000 \<le> c \<and> c \<le> 0x200A) \<or> c = 0x202F \<or> c = 0x205F \<or> c = 0x3000
     \<or> c = 0xFEFF \<or> isLineTerminator c)"

definition isAny :: "nat \<Rightarrow> bool" where
  "isAny c = (\<not> isLineTerminator c)"

text \<open>
  The backtracking matcher tries the candidates of a quantifier in its order of
  preference and keeps the first one with which the rest of the pattern matches.
\<close>

fun firstMatch :: "(nat \<Rightarrow> 'a option) \<Rightarrow> nat list \<Rightarrow> (nat \<times> 'a) option" where
  "firstMatch f [] = None"
| "firstMatch f (n # ns) = (case f n of Some r \<Rightarrow> Some (n, r) | None \<Rightarrow> firstMatch f ns)"

definition runLength :: "(nat \<Rightarrow> bool) \<Rightarrow> jsstring \<Rightarrow> nat" where
  "runLength p s = length (takeWhile p s)"

text \<open>
  \<open>([^\d.].*)?$\<close> at the rest of the input: the optional group is tried first (one
  code unit that is no digit and no dot, then a greedy \<open>.*\<close> that must reach the end
  of the input, since \<open>$\<close> without the \<open>m\<close> flag matches there only); without the
  group the rest must be empty.
\<close>

definition matchSuffix :: "jsstring \<Rightarrow> bool" where
  "matchSuffix rest =
     (case rest of [] \<Rightarrow> True | c # cs \<Rightarrow> \<not> isVersionChar c \<and> list_all isAny cs)"

text \<open>\<open>([\d.]+)\<close>, greedy: the longest run first, then shorter ones.\<close>

definition matchVersion :: "jsstring \<Rightarrow> (nat \<times> unit) option" where
  "matchVersion s =
     firstMatch (\<lambda>k. if matchSuffix (drop k s) then Some () else None)
       (rev [1 ..< Suc (runLength isVersionChar s)])"

text \<open>\<open>(\s+)\<close>, greedy.\<close>

definition matchSpaces :: "jsstring \<Rightarrow> (nat \<times> nat \<times> unit) option" where
  "matchSpaces s =
     firstMatch (\<lambda>j. matchVersion (drop j s)) (rev [1 ..< Suc (runLength isSpace s)])"

text \<open>
  \<open>^(.+?)\<close>, lazy: the shortest prefix first. \<open>exec\<close> on a pattern that starts with
  \<open>^\<close> can match at index 0 only. The result holds the lengths of the groups 1, 2, 3.
\<close>

definition regexExec :: "jsstring \<Rightarrow> (nat \<times> nat \<times> nat) option" where
  "regexExec label =
     (case firstMatch (\<lambda>i. matchSpaces (drop i label)) [1 ..< Suc (runLength isAny label)] of
        None \<Rightarrow> None
      | Some (i, j, k, _) \<Rightarrow> Some (i, j, k))"

definition compactReleaseLabel :: "jsstring \<Rightarrow> jsstring" where
  "compactReleaseLabel label =
     (let short = (case regexExec label of
                     Some (i, j, k) \<Rightarrow>
                       take i label @ take j (drop i label) @ take k (drop (i + j) label)
                   | None \<Rightarrow> label)
      in replaceFirst (asc ''Backend'') (asc ''BE'') short)"

section \<open>Tone classifiers\<close>

datatype StageTone = Running | Winner | Ended | Neutral

text \<open>
  \<open>String.prototype.toLowerCase\<close>, as far as it can produce an ASCII code unit. The
  code units of \<open>A\<close> to \<open>Z\<close> become those of \<open>a\<close> to \<open>z\<close>; U+212A (Kelvin sign)
  becomes \<open>k\<close>; U+0130 (capital I with dot above) becomes \<open>i\<close> followed by U+0307.
  These are the only characters of Unicode whose lower-case form holds an ASCII code
  unit without being that code unit already. Every other code unit is left as it is:
  its lower-case form, where it has one, consists of code units outside ASCII again,
  one or more for each character, so that a search for an ASCII word in the result
  cannot tell the difference.
\<close>

definition lowerUnit :: "nat \<Rightarrow> jsstring" where
  "lowerUnit c =
     (if 0x41 \<le> c \<and> c \<le> 0x5A then [c + 0x20]
      else if c = 0x212A then [0x6B]
      else if c = 0x130 then [0x69, 0x307]
      else [c])"

definition toLowerCase :: "jsstring \<Rightarrow> jsstring" where
  "toLowerCase s = concat (map lowerUnit s)"

definition stageTone :: "jsstring \<Rightarrow> StageTone" where
  "stageTone stage =
     (let lower = toLowerCase stage in
      if includesStr lower (asc ''running'') \<or> includesStr lower (asc ''active'')
           \<or> includesStr lower (asc ''exploring'') then Running
      else if includesStr lower (asc ''winner'') \<or> includesStr lower (asc ''rollout'')
           \<or> includesStr lower (asc ''shipped'') then Winner
      else if includesStr lower (asc ''ended'') \<or> includesStr lower (asc ''stop'')
           \<or> includesStr lower (asc ''backlog'') then Ended
      else Neutral)"

section \<open>Date utilities\<close>

text \<open>
  A \<open>Date\<close> is its time value: milliseconds since 1970-01-01T00:00:00Z, or \<open>NaN\<close>
  for an invalid date.
\<close>

definition msPerDay :: int where
  "msPerDay = 24 * 60 * 60 * 1000"

definition digitsValue :: "jsstring \<Rightarrow> int" where
  "digitsValue ds = foldl (\<lambda>acc c. 10 * acc + (int c - 48)) 0 ds"

text \<open>The day number of a calendar date, as ECMAScript's \<open>MakeDay\<close> computes it.\<close>

definition inLeapYear :: "int \<Rightarrow> bool" where
  "inLeapYear y = (y mod 4 = 0 \<and> (y mod 100 \<noteq> 0 \<or> y mod 400 = 0))"

definition dayFromYear :: "int \<Rightarrow> int" where
  "dayFromYear y = 365 * (y - 1970) + (y - 1969) div 4 - (y - 1901) div 100 + (y - 1601) div 400"

definition monthStart :: "int \<Rightarrow> bool \<Rightarrow> int" where
  "monthStart m leap =
     [0, 31, 59, 90, 120, 151, 181, 212, 243, 273, 304, 334] ! nat (m - 1)
       + (if leap \<and> 2 < m then 1 else 0)"

definition makeDay :: "int \<Rightarrow> int \<Rightarrow> int \<Rightarrow> int" where
  "makeDay y m d = dayFromYear y + monthStart m (inLeapYear y) + (d - 1)"

text \<open>
  \<open>utcDate(isoDate)\<close> is \<open>new Date(`${isoDate}T00:00:00.000Z`)\<close>. The model parses
  the form \<open>YYYY-MM-DD\<close>, the one \<open>toIsoDate\<close> of \<open>notion.ts\<close> produces: midnight UTC
  of that day. As V8 does, it takes a day of 1 to 31 in every month and lets the day
  number carry an overflow into the next month. Every other string is an invalid
  date here.
\<close>

definition utcDate :: "jsstring \<Rightarrow> number" where
  "utcDate isoDate =
     (if length isoDate = 10 \<and> list_all isDigit (take 4 isoDate) \<and> isoDate ! 4 = 45
         \<and> list_all isDigit (take 2 (drop 5 isoDate)) \<and> isoDate ! 7 = 45
         \<and> list_all isDigit (drop 8 isoDate)
      then (let year = digitsValue (take 4 isoDate);
                month = digitsValue (take 2 (drop 5 isoDate));
                day = digitsValue (drop 8 isoDate)
            in if 1 \<le> month \<and> month \<le> 12 \<and> 1 \<le> day \<and> day \<le> 31
               then Some (msPerDay * makeDay year month day) else None)
      else None)"

text \<open>
  \<open>startOfUtcDay\<close> rebuilds the date from its UTC year, month and day of month: the
  start of the UTC day the instant lies in.
\<close>

definition startOfUtcDay :: "number \<Rightarrow> number" where
  "startOfUtcDay date = (case date of None \<Rightarrow> None | Some t \<Rightarrow> Some (msPerDay * (t div msPerDay)))"

definition addUtcDays :: "number \<Rightarrow> int \<Rightarrow> number" where
  "addUtcDays date days = jsPlus date (Some (days * 24 * 60 * 60 * 1000))"

definition diffDays :: "number \<Rightarrow> number \<Rightarrow> number" where
  "diffDays start end = mathRoundDiv (jsMinus end start) (24 * 60 * 60 * 1000)"

section \<open>Timeline layout\<close>

definition DAY_WIDTH :: int where
  "DAY_WIDTH = 34"

record ExperimentItem =
  id :: jsstring
  name :: jsstring
  url :: jsstring
  startDate :: jsstring
  endDate :: jsstring
  stage :: jsstring

record ReleaseItem =
  id :: jsstring
  name :: jsstring
  url :: jsstring
  date :: jsstring
  platform :: jsstring
  status :: jsstring

record PositionedExperiment = ExperimentItem +
  row :: int
  startIndex :: number
  endIndex :: number

record PositionedRelease = ReleaseItem +
  lane :: int
  dayIndex :: number
  labelEnd :: number

record TimelineLayout =
  startDate :: number
  endDate :: number
  totalDays :: number
  positionedExperiments :: "PositionedExperiment list"
  positionedReleases :: "PositionedRelease list"
  experimentRows :: int
  releaseLanes :: int
  canvasWidth :: number

text \<open>
  \<open>Array.prototype.findIndex\<close>: the index of the first element that satisfies the
  predicate, \<open>-1\<close> when there is none.
\<close>

fun findIndex :: "('a \<Rightarrow> bool) \<Rightarrow> 'a list \<Rightarrow> int" where
  "findIndex p [] = - 1"
| "findIndex p (x # xs) =
     (if p x then 0 else (let i = findIndex p xs in if i < 0 then - 1 else i + 1))"

text \<open>
  The callback of the \<open>map\<close> over the sorted experiments. It reads and updates the
  array \<open>experimentRowEnds\<close>, which is passed in and returned.
\<close>

definition positionExperiment ::
  "number \<Rightarrow> number list \<Rightarrow> ExperimentItem \<Rightarrow> PositionedExperiment \<times> number list" where
  "positionExperiment windowStart experimentRowEnds item =
     (let startIndex = mathMax (Some 0) (diffDays windowStart (utcDate (ExperimentItem.startDate item)));
          endIndex = mathMax startIndex (diffDays windowStart (utcDate (ExperimentItem.endDate item)));
          row = findIndex (\<lambda>rowEnd. jsGt startIndex rowEnd) experimentRowEnds
      in if row < 0
         then (ExperimentItem.extend item
                 (PositionedExperiment.fields (int (length experimentRowEnds)) startIndex endIndex),
               experimentRowEnds @ [endIndex])
         else (ExperimentItem.extend item (PositionedExperiment.fields row startIndex endIndex),
               experimentRowEnds[nat row := endIndex]))"

fun mapExperiments ::
  "number \<Rightarrow> number list \<Rightarrow> ExperimentItem list \<Rightarrow> PositionedExperiment list \<times> number list" where
  "mapExperiments windowStart experimentRowEnds [] = ([], experimentRowEnds)"
| "mapExperiments windowStart experimentRowEnds (item # items) =
     (let (p, rowEnds1) = positionExperiment windowStart experimentRowEnds item;
          (ps, rowEnds2) = mapExperiments windowStart rowEnds1 items
      in (p # ps, rowEnds2))"

text \<open>
  The callback of the \<open>map\<close> over the sorted releases. Its state is the array
  \<open>laneOccupancy\<close> and the variable \<open>maxReleaseLabelEnd\<close>.
\<close>

definition positionRelease ::
  "number \<Rightarrow> number list \<times> number \<Rightarrow> ReleaseItem \<Rightarrow> PositionedRelease \<times> number list \<times> number" where
  "positionRelease windowStart state item =
     (let laneOccupancy = fst state;
          maxReleaseLabelEnd = snd state;
          dayIndex = mathMax (Some 0) (diffDays windowStart (utcDate (date item)));
          x = jsPlus (jsTimes dayIndex (Some DAY_WIDTH)) (Some (DAY_WIDTH div 2));
          label = compactReleaseLabel (ReleaseItem.name item);
          labelWidth = max 92 (min 240 (int (length label) * 7 + 44));
          lane = findIndex (\<lambda>occupiedUntil. jsGt x (jsPlus occupiedUntil (Some 12))) laneOccupancy;
          maxEnd = mathMax maxReleaseLabelEnd (jsPlus (jsPlus x (Some labelWidth)) (Some 20))
      in if lane < 0
         then (ReleaseItem.extend item
                 (PositionedRelease.fields (int (length laneOccupancy)) dayIndex
                    (jsPlus x (Some labelWidth))),
               laneOccupancy @ [jsPlus x (Some labelWidth)], maxEnd)
         else (ReleaseItem.extend item
                 (PositionedRelease.fields lane dayIndex (jsPlus x (Some labelWidth))),
               laneOccupancy[nat lane := jsPlus x (Some labelWidth)], maxEnd))"

text \<open>The anchor \<open>x\<close> and the \<open>labelWidth\<close> of a release, as the callback computes them.\<close>

definition releaseX :: "number \<Rightarrow> ReleaseItem \<Rightarrow> number" where
  "releaseX windowStart item =
     (let dayIndex = mathMax (Some 0) (diffDays windowStart (utcDate (date item)))
      in jsPlus (jsTimes dayIndex (Some DAY_WIDTH)) (Some (DAY_WIDTH div 2)))"

definition releaseLabelWidth :: "ReleaseItem \<Rightarrow> int" where
  "releaseLabelWidth item =
     (let label = compactReleaseLabel (ReleaseItem.name item)
      in max 92 (min 240 (int (length label) * 7 + 44)))"

fun mapReleases ::
  "number \<Rightarrow> number list \<times> number \<Rightarrow> ReleaseItem list \<Rightarrow> PositionedRelease list \<times> number list \<times> number" where
  "mapReleases windowStart state [] = ([], state)"
| "mapReleases windowStart state (item # items) =
     (let (p, state1) = positionRelease windowStart state item;
          (ps, state2) = mapReleases windowStart state1 items
      in (p # ps, state2))"

text \<open>
  \<open>layoutTimeline\<close>. The instant \<open>new Date()\<close> returns is the parameter \<open>now\<close>.
  \<open>[...xs].sort((a, b) => a.k.localeCompare(b.k))\<close> is a stable sort by the key \<open>k\<close>;
  \<open>localeCompare\<close> is modelled as the lexicographic order on code units, with which
  the collation order agrees on dates of the form \<open>YYYY-MM-DD\<close>.
\<close>

definition laterDate :: "number \<Rightarrow> number \<Rightarrow> number" where
  "laterDate latest candidate = (if jsGt candidate latest then candidate else latest)"

definition layoutTimeline ::
  "int \<Rightarrow> ExperimentItem list \<Rightarrow> ReleaseItem list \<Rightarrow> jsstring \<Rightarrow> TimelineLayout" where
  "layoutTimeline now experiments releases windowStartIso =
     (let startDate = utcDate windowStartIso;
          today = startOfUtcDay (Some now);
          allEndDates = [today] @ map (\<lambda>exp. utcDate (ExperimentItem.endDate exp)) experiments
                          @ map (\<lambda>rel. utcDate (date rel)) releases;
          endDate = foldl laterDate today allEndDates;
          totalDays = mathMax (Some 1) (jsPlus (diffDays startDate endDate) (Some 1));
          sortedExperiments = sort_key ExperimentItem.startDate experiments;
          (positionedExperiments, experimentRowEnds) = mapExperiments startDate [] sortedExperiments;
          sortedReleases = sort_key date releases;
          (positionedReleases, laneOccupancy, maxReleaseLabelEnd) =
             mapReleases startDate ([], jsTimes totalDays (Some DAY_WIDTH)) sortedReleases
      in \<lparr> startDate = startDate,
           endDate = endDate,
           totalDays = totalDays,
           positionedExperiments = positionedExperiments,
           positionedReleases = positionedReleases,
           experimentRows = max 1 (int (length experimentRowEnds)),
           releaseLanes = max 1 (int (length laneOccupancy)),
           canvasWidth = mathMax (jsTimes totalDays (Some DAY_WIDTH)) maxReleaseLabelEnd \<rparr>)"

section \<open>Invariants of the row assignment\<close>

text \<open>
  Predicates for the proofs about the loop over the experiments. The end marker of a
  row, when it is a number, is at least the end index of every experiment placed in
  that row so far; an end index that is a number comes with a start index that is
  one and is not above it; two experiments of one row lie apart, the earlier one
  first.
\<close>

definition rowEndsCover :: "number list \<Rightarrow> PositionedExperiment list \<Rightarrow> bool" where
  "rowEndsCover rowEnds ps =
     (\<forall>q\<in>set ps. 0 \<le> row q \<and> nat (row q) < length rowEnds
        \<and> (\<forall>v. rowEnds ! nat (row q) = Some v \<longrightarrow> (\<exists>e. endIndex q = Some e \<and> e \<le> v)))"

definition rangeOrdered :: "PositionedExperiment \<Rightarrow> bool" where
  "rangeOrdered p = (\<forall>e. endIndex p = Some e \<longrightarrow> (\<exists>s. startIndex p = Some s \<and> s \<le> e))"

definition apartInRow :: "PositionedExperiment \<Rightarrow> PositionedExperiment \<Rightarrow> bool" where
  "apartInRow q p =
     (row q = row p \<longrightarrow>
        (\<exists>si ei sj. startIndex q = Some si \<and> endIndex q = Some ei \<and> startIndex p = Some sj
           \<and> si \<le> ei \<and> ei < sj))"


section \<open>The lane state between two releases\<close>

text \<open>
  The array \<open>laneOccupancy\<close> after the callback of the \<open>map\<close> has run on the given
  releases, from the empty array. (The other part of the state, \<open>maxReleaseLabelEnd\<close>,
  has no influence on it.)
\<close>

definition laneOccupancyAfter :: "number \<Rightarrow> ReleaseItem list \<Rightarrow> number list" where
  "laneOccupancyAfter windowStart items = fst (snd (mapReleases windowStart ([], None) items))"

section \<open>Properties of the text utilities\<close>

lemma clampText_cases:
  "clampText text n =
     (if int (length text) \<le> n then text
      else if 1 \<le> n then take (nat (n - 1)) text @ clampSuffix
      else take (length text - nat (1 - n)) text @ clampSuffix)"
  by (auto simp: clampText_def slice_def Let_def max_def min_def nat_diff_distrib'
      intro!: arg_cong2[where f=take])

lemma asc_simps:
  "asc [] = []"
  "asc (c # cs) = of_char c # asc cs"
  by (simp_all add: asc_def)

text \<open>
  Claim C6, as amended. \<open>clampText\<close> returns the text unchanged when its length is at
  most \<open>maxChars\<close>. Otherwise, for \<open>maxChars \<ge> 1\<close>, it returns the first
  \<open>maxChars - 1\<close> code units of the text followed by the suffix of the template
  literal. For \<open>maxChars < 1\<close> it returns a value too, but not the one for
  \<open>max(1, maxChars)\<close>: the negative end index of \<open>slice\<close> counts from the end, so the
  text loses its last \<open>1 - maxChars\<close> code units before the suffix is appended.
\<close>

theorem clampText_truncates:
  "(int (length text) \<le> maxChars \<longrightarrow> clampText text maxChars = text)
   \<and> (maxChars < int (length text) \<and> 1 \<le> maxChars \<longrightarrow>
        clampText text maxChars = take (nat (maxChars - 1)) text @ clampSuffix
        \<and> length (take (nat (maxChars - 1)) text) = nat (maxChars - 1))
   \<and> (maxChars < int (length text) \<and> maxChars < 1 \<longrightarrow>
        clampText text maxChars = take (length text - nat (1 - maxChars)) text @ clampSuffix)"
  by (auto simp: clampText_cases)

theorem clampText_truncates_witness:
  "int (length (asc ''abcdef'')) \<le> 10 \<and> clampText (asc ''abcdef'') 10 = asc ''abcdef''
   \<and> (3::int) < int (length (asc ''abcdef'')) \<and> (1::int) \<le> 3
   \<and> clampText (asc ''abcdef'') 3 = asc ''ab'' @ clampSuffix
   \<and> (0::int) < int (length (asc ''abcdef'')) \<and> (0::int) < 1
   \<and> clampText (asc ''abcdef'') 0 = asc ''abcde'' @ clampSuffix"
  using clampText_truncates[of "asc ''abcdef''" 10] clampText_truncates[of "asc ''abcdef''" 3]
    clampText_truncates[of "asc ''abcdef''" 0]
  by (simp add: asc_simps)

text \<open>
  Claim C6 as stated fails for \<open>maxChars < 1\<close>: on \<open>abc\<close> with \<open>maxChars = 0\<close> the
  result keeps \<open>ab\<close>, whereas with \<open>max(1, 0) = 1\<close> nothing of the text is kept.
\<close>

theorem clampText_below_one_counterexample:
  "clampText (asc ''abc'') 0 \<noteq> clampText (asc ''abc'') (max 1 0)"
  by (simp add: clampText_cases asc_simps)

text \<open>
  Claim C7, as amended. \<open>clampText\<close> is idempotent for every string and every
  \<open>maxChars \<ge> 1\<close>.
\<close>

theorem clampText_idempotent:
  "1 \<le> n \<Longrightarrow> clampText (clampText s n) n = clampText s n"
  by (auto simp: clampText_cases clampSuffix_def)

theorem clampText_idempotent_witness:
  "(1::int) \<le> 3 \<and> clampText (asc ''abcdef'') 3 \<noteq> asc ''abcdef''
   \<and> clampText (clampText (asc ''abcdef'') 3) 3 = clampText (asc ''abcdef'') 3"
proof -
  have h: "(1::int) \<le> 3" by simp
  have "clampText (asc ''abcdef'') 3 \<noteq> asc ''abcdef''"
    by (simp add: clampText_cases asc_simps clampSuffix_def)
  then show ?thesis using h clampText_idempotent[OF h, of "asc ''abcdef''"] by simp
qed

text \<open>
  Claim C7 as stated fails for a negative \<open>maxChars\<close>: every application removes
  further code units of the text.
\<close>

theorem clampText_idempotent_counterexample:
  "clampText (clampText (asc ''abc'') (- 1)) (- 1) \<noteq> clampText (asc ''abc'') (- 1)"
  by (simp add: clampText_cases asc_simps clampSuffix_def)

text \<open>
  Claim C8. \<open>compactReleaseLabel("Growth Backend 2.3.1 rollout")\<close> is
  \<open>"Growth BE 2.3.1"\<close>: the match keeps the prefix, the white space and the version
  (groups of 14, 1 and 5 code units), drops the suffix, and \<open>Backend\<close> becomes \<open>BE\<close>.
\<close>

theorem compactReleaseLabel_example:
  "regexExec (asc ''Growth Backend 2.3.1 rollout'') = Some (14, 1, 5)
   \<and> compactReleaseLabel (asc ''Growth Backend 2.3.1 rollout'') = asc ''Growth BE 2.3.1''"
proof -
  have m: "regexExec (asc ''Growth Backend 2.3.1 rollout'') = Some (14, 1, 5)"
    by (simp add: regexExec_def matchSpaces_def matchVersion_def matchSuffix_def
        runLength_def isAny_def isLineTerminator_def isSpace_def isVersionChar_def
        isDigit_def asc_simps)
  have "compactReleaseLabel (asc ''Growth Backend 2.3.1 rollout'') = asc ''Growth BE 2.3.1''"
    unfolding compactReleaseLabel_def m by (simp add: asc_simps)
  with m show ?thesis by simp
qed

section \<open>Properties of the tone classifier\<close>

lemma includesStr_iff: "includesStr t pat \<longleftrightarrow> (\<exists>a b. t = a @ pat @ b)"
proof (induction t)
  case Nil
  then show ?case by auto
next
  case (Cons c cs)
  show ?case
  proof
    assume "includesStr (c # cs) pat"
    then consider "take (length pat) (c # cs) = pat" | "includesStr cs pat" by auto
    then show "\<exists>a b. c # cs = a @ pat @ b"
    proof cases
      case 1
      then have "c # cs = [] @ pat @ drop (length pat) (c # cs)"
        by (metis append_Nil append_take_drop_id)
      then show ?thesis by blast
    next
      case 2
      then obtain a b where "cs = a @ pat @ b" using Cons.IH by blast
      then have "c # cs = (c # a) @ pat @ b" by simp
      then show ?thesis by blast
    qed
  next
    assume "\<exists>a b. c # cs = a @ pat @ b"
    then obtain a b where ab: "c # cs = a @ pat @ b" by blast
    show "includesStr (c # cs) pat"
    proof (cases a)
      case Nil
      then have "take (length pat) (c # cs) = pat" using ab by simp
      then show ?thesis by simp
    next
      case (Cons a0 as)
      then have "cs = as @ pat @ b" using ab by simp
      then show ?thesis using Cons.IH by auto
    qed
  qed
qed

lemma toLowerCase_append: "toLowerCase (a @ b) = toLowerCase a @ toLowerCase b"
  by (simp add: toLowerCase_def)

lemma includesStr_lower:
  "toLowerCase w = kw \<Longrightarrow> includesStr (toLowerCase (a @ w @ b)) kw"
  unfolding includesStr_iff toLowerCase_append by blast

lemma toLowerCase_asc_running: "toLowerCase (asc ''running'') = asc ''running''"
  by (simp add: toLowerCase_def asc_simps lowerUnit_def)

lemma stageTone_cases:
  "stageTone s =
     (if list_ex (includesStr (toLowerCase s)) [asc ''running'', asc ''active'', asc ''exploring'']
      then Running
      else if list_ex (includesStr (toLowerCase s)) [asc ''winner'', asc ''rollout'', asc ''shipped'']
      then Winner
      else if list_ex (includesStr (toLowerCase s)) [asc ''ended'', asc ''stop'', asc ''backlog'']
      then Ended
      else Neutral)"
  by (simp add: stageTone_def Let_def)

text \<open>
  Claim C9. \<open>stageTone\<close> looks for its keywords in the lower-cased text, in a fixed
  order, and the first group with a match decides.
  \<^item> A text that holds a running keyword in any mix of cases is \<open>running\<close>, whatever
    else it holds; so is every text that holds both \<open>running\<close> and \<open>ended\<close>, in
    either order.
  \<^item> A text that holds a winner keyword in any mix of cases, and no running keyword,
    is \<open>winner\<close>.
  \<^item> A text that holds an ended keyword in any mix of cases, and neither a running
    nor a winner keyword, is \<open>ended\<close>.
  \<^item> The result is \<open>running\<close> exactly when a running keyword occurs; \<open>winner\<close> exactly
    when a winner keyword and no running keyword occurs; \<open>ended\<close> exactly when an ended
    keyword and neither a running nor a winner keyword occurs; \<open>neutral\<close> exactly when
    none of the nine keywords occurs.
  \<^item> \<open>stageTone("Winner - Ended")\<close> is \<open>winner\<close>; \<open>Bac\<close>, U+212A, \<open>log\<close> is \<open>ended\<close>
    (the Kelvin sign lowers to \<open>k\<close>); \<open>Paused\<close> is \<open>neutral\<close>.
\<close>

theorem stageTone_priority:
  "(toLowerCase k1 \<in> {asc ''running'', asc ''active'', asc ''exploring''}
      \<longrightarrow> stageTone (a1 @ k1 @ b1) = Running)
   \<and> stageTone (a2 @ asc ''running'' @ b2 @ asc ''ended'' @ c2) = Running
   \<and> stageTone (a3 @ asc ''ended'' @ b3 @ asc ''running'' @ c3) = Running
   \<and> (toLowerCase k4 \<in> {asc ''winner'', asc ''rollout'', asc ''shipped''}
        \<and> \<not> list_ex (includesStr (toLowerCase (a4 @ k4 @ b4)))
              [asc ''running'', asc ''active'', asc ''exploring'']
      \<longrightarrow> stageTone (a4 @ k4 @ b4) = Winner)
   \<and> (toLowerCase k5 \<in> {asc ''ended'', asc ''stop'', asc ''backlog''}
        \<and> \<not> list_ex (includesStr (toLowerCase (a5 @ k5 @ b5)))
              [asc ''running'', asc ''active'', asc ''exploring'']
        \<and> \<not> list_ex (includesStr (toLowerCase (a5 @ k5 @ b5)))
              [asc ''winner'', asc ''rollout'', asc ''shipped'']
      \<longrightarrow> stageTone (a5 @ k5 @ b5) = Ended)
   \<and> (stageTone s = Running \<longleftrightarrow>
        list_ex (includesStr (toLowerCase s)) [asc ''running'', asc ''active'', asc ''exploring''])
   \<and> (stageTone s = Winner \<longleftrightarrow>
        \<not> list_ex (includesStr (toLowerCase s)) [asc ''running'', asc ''active'', asc ''exploring'']
        \<and> list_ex (includesStr (toLowerCase s)) [asc ''winner'', asc ''rollout'', asc ''shipped''])
   \<and> (stageTone s = Ended \<longleftrightarrow>
        \<not> list_ex (includesStr (toLowerCase s)) [asc ''running'', asc ''active'', asc ''exploring'']
        \<and> \<not> list_ex (includesStr (toLowerCase s)) [asc ''winner'', asc ''rollout'', asc ''shipped'']
        \<and> list_ex (includesStr (toLowerCase s)) [asc ''ended'', asc ''stop'', asc ''backlog''])
   \<and> (stageTone s = Neutral \<longleftrightarrow>
        \<not> list_ex (includesStr (toLowerCase s)) [asc ''running'', asc ''active'', asc ''exploring'']
        \<and> \<not> list_ex (includesStr (toLowerCase s)) [asc ''winner'', asc ''rollout'', asc ''shipped'']
        \<and> \<not> list_ex (includesStr (toLowerCase s)) [asc ''ended'', asc ''stop'', asc ''backlog''])
   \<and> stageTone (asc ''Winner - Ended'') = Winner
   \<and> stageTone (asc ''Bac'' @ [0x212A] @ asc ''log'') = Ended
   \<and> stageTone (asc ''Paused'') = Neutral"
proof -
  have run: "stageTone (x @ k @ y) = Running"
    if "toLowerCase k \<in> {asc ''running'', asc ''active'', asc ''exploring''}" for x k y
    using that includesStr_lower[of k _ x y] by (auto simp: stageTone_cases)
  have r1: "stageTone (a2 @ asc ''running'' @ b2 @ asc ''ended'' @ c2) = Running"
    using run[of "asc ''running''" a2 "b2 @ asc ''ended'' @ c2"] toLowerCase_asc_running
    by simp
  have r2: "stageTone (a3 @ asc ''ended'' @ b3 @ asc ''running'' @ c3) = Running"
    using run[of "asc ''running''" "a3 @ asc ''ended'' @ b3" c3] toLowerCase_asc_running
    by simp
  have win: "stageTone (a4 @ k4 @ b4) = Winner"
    if "toLowerCase k4 \<in> {asc ''winner'', asc ''rollout'', asc ''shipped''}"
      and "\<not> list_ex (includesStr (toLowerCase (a4 @ k4 @ b4)))
              [asc ''running'', asc ''active'', asc ''exploring'']"
    using that includesStr_lower[of k4 _ a4 b4] by (auto simp: stageTone_cases)
  have ended: "stageTone (a5 @ k5 @ b5) = Ended"
    if "toLowerCase k5 \<in> {asc ''ended'', asc ''stop'', asc ''backlog''}"
      and "\<not> list_ex (includesStr (toLowerCase (a5 @ k5 @ b5)))
              [asc ''running'', asc ''active'', asc ''exploring'']"
      and "\<not> list_ex (includesStr (toLowerCase (a5 @ k5 @ b5)))
              [asc ''winner'', asc ''rollout'', asc ''shipped'']"
    using that includesStr_lower[of k5 _ a5 b5] by (auto simp: stageTone_cases)
  have i1: "stageTone s = Running \<longleftrightarrow>
        list_ex (includesStr (toLowerCase s)) [asc ''running'', asc ''active'', asc ''exploring'']"
    unfolding stageTone_cases by simp
  have i2: "stageTone s = Winner \<longleftrightarrow>
        \<not> list_ex (includesStr (toLowerCase s)) [asc ''running'', asc ''active'', asc ''exploring'']
        \<and> list_ex (includesStr (toLowerCase s)) [asc ''winner'', asc ''rollout'', asc ''shipped'']"
    unfolding stageTone_cases by simp
  have i3: "stageTone s = Ended \<longleftrightarrow>
        \<not> list_ex (includesStr (toLowerCase s)) [asc ''running'', asc ''active'', asc ''exploring'']
        \<and> \<not> list_ex (includesStr (toLowerCase s)) [asc ''winner'', asc ''rollout'', asc ''shipped'']
        \<and> list_ex (includesStr (toLowerCase s)) [asc ''ended'', asc ''stop'', asc ''backlog'']"
    unfolding stageTone_cases by simp
  have i4: "stageTone s = Neutral \<longleftrightarrow>
        \<not> list_ex (includesStr (toLowerCase s)) [asc ''running'', asc ''active'', asc ''exploring'']
        \<and> \<not> list_ex (includesStr (toLowerCase s)) [asc ''winner'', asc ''rollout'', asc ''shipped'']
        \<and> \<not> list_ex (includesStr (toLowerCase s)) [asc ''ended'', asc ''stop'', asc ''backlog'']"
    unfolding stageTone_cases by simp
  have c1: "stageTone (asc ''Winner - Ended'') = Winner"
    by (simp add: stageTone_def toLowerCase_def asc_simps lowerUnit_def)
  have c2: "stageTone (asc ''Bac'' @ [0x212A] @ asc ''log'') = Ended"
    by (simp add: stageTone_def toLowerCase_def asc_simps lowerUnit_def)
  have c3: "stageTone (asc ''Paused'') = Neutral"
    by (simp add: stageTone_def toLowerCase_def asc_simps lowerUnit_def)
  show ?thesis
    by (intro conjI impI; (elim conjE)?) (rule run r1 r2 win ended i1 i2 i3 i4 c1 c2 c3; assumption?)+
qed

theorem stageTone_priority_witness:
  "toLowerCase (asc ''RUNNING'') \<in> {asc ''running'', asc ''active'', asc ''exploring''}
   \<and> stageTone (asc ''Ended, then '' @ asc ''RUNNING'' @ asc '' again'') = Running
   \<and> toLowerCase (asc ''Rollout'') \<in> {asc ''winner'', asc ''rollout'', asc ''shipped''}
   \<and> \<not> list_ex (includesStr (toLowerCase (asc ''Stopped - '' @ asc ''Rollout'' @ asc '' 50%'')))
          [asc ''running'', asc ''active'', asc ''exploring'']
   \<and> stageTone (asc ''Stopped - '' @ asc ''Rollout'' @ asc '' 50%'') = Winner
   \<and> toLowerCase (asc ''BAC'' @ [0x212A] @ asc ''LOG'') \<in> {asc ''ended'', asc ''stop'', asc ''backlog''}
   \<and> \<not> list_ex (includesStr (toLowerCase (asc ''In '' @ (asc ''BAC'' @ [0x212A] @ asc ''LOG'') @ [])))
          [asc ''running'', asc ''active'', asc ''exploring'']
   \<and> \<not> list_ex (includesStr (toLowerCase (asc ''In '' @ (asc ''BAC'' @ [0x212A] @ asc ''LOG'') @ [])))
          [asc ''winner'', asc ''rollout'', asc ''shipped'']
   \<and> stageTone (asc ''In '' @ (asc ''BAC'' @ [0x212A] @ asc ''LOG'') @ []) = Ended"
proof -
  have h1: "toLowerCase (asc ''RUNNING'') \<in> {asc ''running'', asc ''active'', asc ''exploring''}"
    by (simp add: toLowerCase_def asc_simps lowerUnit_def)
  have h4: "toLowerCase (asc ''Rollout'') \<in> {asc ''winner'', asc ''rollout'', asc ''shipped''}"
    by (simp add: toLowerCase_def asc_simps lowerUnit_def)
  have n4: "\<not> list_ex (includesStr (toLowerCase (asc ''Stopped - '' @ asc ''Rollout'' @ asc '' 50%'')))
          [asc ''running'', asc ''active'', asc ''exploring'']"
    by (simp add: toLowerCase_def asc_simps lowerUnit_def)
  have h5: "toLowerCase (asc ''BAC'' @ [0x212A] @ asc ''LOG'') \<in> {asc ''ended'', asc ''stop'', asc ''backlog''}"
    by (simp add: toLowerCase_def asc_simps lowerUnit_def)
  have n5: "\<not> list_ex (includesStr (toLowerCase (asc ''In '' @ (asc ''BAC'' @ [0x212A] @ asc ''LOG'') @ [])))
          [asc ''running'', asc ''active'', asc ''exploring'']"
    by (simp add: toLowerCase_def asc_simps lowerUnit_def)
  have m5: "\<not> list_ex (includesStr (toLowerCase (asc ''In '' @ (asc ''BAC'' @ [0x212A] @ asc ''LOG'') @ [])))
          [asc ''winner'', asc ''rollout'', asc ''shipped'']"
    by (simp add: toLowerCase_def asc_simps lowerUnit_def)
  note t = stageTone_priority[of "asc ''RUNNING''" "asc ''Ended, then ''" "asc '' again''"
        "[]" "[]" "[]" "[]" "[]" "[]" "asc ''Rollout''" "asc ''Stopped - ''" "asc '' 50%''"
        "asc ''BAC'' @ [0x212A] @ asc ''LOG''" "asc ''In ''" "[]" "[]"]
  note c1 = t[THEN conjunct1, THEN mp, OF h1]
  note t4 = t[THEN conjunct2, THEN conjunct2, THEN conjunct2]
  note c4 = t4[THEN conjunct1, THEN mp, OF conjI, OF h4 n4]
  note c5 = t4[THEN conjunct2, THEN conjunct1, THEN mp, OF conjI, OF h5 conjI, OF n5 m5]
  show ?thesis
    using h1 c1 h4 n4 c4 h5 n5 m5 c5 by (intro conjI)
qed

section \<open>Properties of the timeline layout\<close>

lemma findIndex_ge: "- 1 \<le> findIndex p xs"
  by (induction xs) (auto simp: Let_def)

lemma findIndex_lt_length: "findIndex p xs < int (length xs)"
  by (induction xs) (auto simp: Let_def)

lemma findIndex_none: "findIndex p xs < 0 \<longleftrightarrow> (\<forall>x\<in>set xs. \<not> p x)"
  by (induction xs) (auto simp: Let_def)

lemma findIndex_found: "0 \<le> findIndex p xs \<Longrightarrow> p (xs ! nat (findIndex p xs))"
proof (induction xs)
  case Nil
  then show ?case by simp
next
  case (Cons x xs)
  show ?case
  proof (cases "p x")
    case True
    then show ?thesis by simp
  next
    case False
    with Cons.prems have nn: "0 \<le> findIndex p xs" by (auto simp: Let_def split: if_splits)
    then have "nat (findIndex p xs + 1) = Suc (nat (findIndex p xs))" by simp
    with False nn Cons.IH show ?thesis by (simp add: Let_def)
  qed
qed

lemma findIndex_first: "0 \<le> findIndex p xs \<Longrightarrow> j < nat (findIndex p xs) \<Longrightarrow> \<not> p (xs ! j)"
proof (induction xs arbitrary: j)
  case Nil
  then show ?case by simp
next
  case (Cons x xs)
  show ?case
  proof (cases "p x")
    case True
    with Cons.prems show ?thesis by simp
  next
    case False
    with Cons.prems have nn: "0 \<le> findIndex p xs" by (auto simp: Let_def split: if_splits)
    then have eq: "nat (findIndex p (x # xs)) = Suc (nat (findIndex p xs))"
      using False by (simp add: Let_def)
    show ?thesis
    proof (cases j)
      case 0
      with False show ?thesis by simp
    next
      case (Suc j')
      with Cons.prems(2) eq have "j' < nat (findIndex p xs)" by simp
      with Cons.IH[OF nn] Suc show ?thesis by simp
    qed
  qed
qed

lemmas date_defs = utcDate_def isDigit_def digitsValue_def makeDay_def dayFromYear_def
  monthStart_def inLeapYear_def msPerDay_def

lemma utcDate_2024_01_01: "utcDate (asc ''2024-01-01'') = Some 1704067200000"
  by (simp add: date_defs asc_simps)
lemma utcDate_2024_01_03: "utcDate (asc ''2024-01-03'') = Some 1704240000000"
  by (simp add: date_defs asc_simps)
lemma utcDate_2024_01_05: "utcDate (asc ''2024-01-05'') = Some 1704412800000"
  by (simp add: date_defs asc_simps)
lemma utcDate_2024_01_08: "utcDate (asc ''2024-01-08'') = Some 1704672000000"
  by (simp add: date_defs asc_simps)
lemma utcDate_2024_01_10: "utcDate (asc ''2024-01-10'') = Some 1704844800000"
  by (simp add: date_defs asc_simps)

lemma date_string_order: "asc ''2024-01-03'' \<le> asc ''2024-01-05''" "\<not> asc ''2024-01-05'' \<le> asc ''2024-01-03''"
  by (simp_all add: asc_simps)

lemmas num_defs = jsArith_def jsPlus_def jsMinus_def jsTimes_def mathMax_def mathMin_def jsGt_def
  mathRoundDiv_def diffDays_def

text \<open>
  Claim C4. With the window start 2024-01-01, experiment A from 2024-01-03 to
  2024-01-10 and experiment B from 2024-01-05 to 2024-01-08, in either input order
  and with no releases, \<open>layoutTimeline\<close> returns A in row 0 (days 2 to 9) and B in
  row 1 (days 4 to 7), and \<open>experimentRows\<close> is 2, whatever the other fields of the
  records and the current instant are.
\<close>

theorem layoutTimeline_overlap_example:
  "let A = \<lparr> ExperimentItem.id = ia, name = na, url = ua, startDate = asc ''2024-01-03'',
               endDate = asc ''2024-01-10'', stage = sa \<rparr>;
       B = \<lparr> ExperimentItem.id = ib, name = nb, url = ub, startDate = asc ''2024-01-05'',
               endDate = asc ''2024-01-08'', stage = sb \<rparr>;
       L1 = layoutTimeline now [A, B] [] (asc ''2024-01-01'');
       L2 = layoutTimeline now [B, A] [] (asc ''2024-01-01'')
   in positionedExperiments L1
        = [ExperimentItem.extend A (PositionedExperiment.fields 0 (Some 2) (Some 9)),
           ExperimentItem.extend B (PositionedExperiment.fields 1 (Some 4) (Some 7))]
      \<and> experimentRows L1 = 2
      \<and> positionedExperiments L2 = positionedExperiments L1
      \<and> experimentRows L2 = 2"
  unfolding Let_def layoutTimeline_def
  by (simp add: utcDate_2024_01_01 utcDate_2024_01_03 utcDate_2024_01_05
      utcDate_2024_01_08 utcDate_2024_01_10 date_string_order positionExperiment_def num_defs Let_def
      ExperimentItem.extend_def PositionedExperiment.fields_def)

lemma mathMax_Some: "mathMax a b = Some e \<Longrightarrow> \<exists>x y. a = Some x \<and> b = Some y \<and> e = max x y"
  by (auto simp: mathMax_def jsArith_def split: option.splits)

lemma jsGt_Some: "jsGt a b \<longleftrightarrow> (\<exists>x y. a = Some x \<and> b = Some y \<and> y < x)"
  by (auto simp: jsGt_def split: option.splits)

lemma positionExperiment_row:
  assumes "positionExperiment ws re item = (p, re')"
  shows "0 \<le> row p" and "nat (row p) < length re'" and "re' ! nat (row p) = endIndex p"
    and "length re \<le> length re'"
    and "\<And>j. j < length re \<Longrightarrow> j \<noteq> nat (row p) \<Longrightarrow> re' ! j = re ! j"
    and "nat (row p) < length re \<Longrightarrow> jsGt (startIndex p) (re ! nat (row p))"
proof -
  define s where "s = mathMax (Some 0) (diffDays ws (utcDate (ExperimentItem.startDate item)))"
  define r where "r = findIndex (\<lambda>rowEnd. jsGt s rowEnd) re"
  have rl: "r < int (length re)" unfolding r_def by (rule findIndex_lt_length)
  show "0 \<le> row p" and "nat (row p) < length re'" and "re' ! nat (row p) = endIndex p"
    and "length re \<le> length re'"
    using assms rl
    by (auto simp: positionExperiment_def Let_def s_def[symmetric] r_def[symmetric]
        ExperimentItem.extend_def PositionedExperiment.fields_def split: if_splits)
  show "re' ! j = re ! j" if "j < length re" "j \<noteq> nat (row p)" for j
    using assms rl that
    by (auto simp: positionExperiment_def Let_def s_def[symmetric] r_def[symmetric]
        ExperimentItem.extend_def PositionedExperiment.fields_def nth_append split: if_splits)
  show "jsGt (startIndex p) (re ! nat (row p))" if "nat (row p) < length re"
  proof (cases "r < 0")
    case True
    with assms that show ?thesis
      by (auto simp: positionExperiment_def Let_def s_def[symmetric] r_def[symmetric]
          ExperimentItem.extend_def PositionedExperiment.fields_def split: if_splits)
  next
    case False
    then have "0 \<le> r" by simp
    then have "jsGt s (re ! nat r)" unfolding r_def by (rule findIndex_found)
    with assms False show ?thesis
      by (auto simp: positionExperiment_def Let_def s_def[symmetric] r_def[symmetric]
          ExperimentItem.extend_def PositionedExperiment.fields_def split: if_splits)
  qed
qed

lemma positionExperiment_range:
  assumes "positionExperiment ws re item = (p, re')" and "endIndex p = Some e"
  shows "\<exists>s. startIndex p = Some s \<and> s \<le> e"
proof -
  have "endIndex p = mathMax (startIndex p) (diffDays ws (utcDate (ExperimentItem.endDate item)))"
    using assms(1)
    by (auto simp: positionExperiment_def Let_def
        ExperimentItem.extend_def PositionedExperiment.fields_def split: if_splits)
  with assms(2) have "mathMax (startIndex p) (diffDays ws (utcDate (ExperimentItem.endDate item))) = Some e"
    by simp
  from mathMax_Some[OF this] show ?thesis by auto
qed


lemma positionExperiment_step:
  assumes inv: "rowEndsCover re prev" and rng: "\<forall>q\<in>set prev. rangeOrdered q"
    and pe: "positionExperiment ws re item = (p, re')"
  shows "rowEndsCover re' (prev @ [p])" and "\<forall>q\<in>set prev. apartInRow q p" and "rangeOrdered p"
proof -
  note r = positionExperiment_row[OF pe]
  show ro: "rangeOrdered p"
    unfolding rangeOrdered_def using positionExperiment_range[OF pe] by blast
  have same: "\<exists>si ei sj v. startIndex q = Some si \<and> endIndex q = Some ei \<and> startIndex p = Some sj
      \<and> si \<le> ei \<and> ei < sj \<and> re ! nat (row p) = Some v \<and> ei \<le> v \<and> v < sj"
    if q: "q \<in> set prev" and eq: "row q = row p" for q
  proof -
    from inv q eq have lt: "nat (row p) < length re"
      and cov: "\<forall>v. re ! nat (row p) = Some v \<longrightarrow> (\<exists>e. endIndex q = Some e \<and> e \<le> v)"
      unfolding rowEndsCover_def by auto
    from r(6)[OF lt] obtain sj v where sj: "startIndex p = Some sj" "re ! nat (row p) = Some v" "v < sj"
      unfolding jsGt_Some by blast
    from cov sj obtain ei where ei: "endIndex q = Some ei" "ei \<le> v" by blast
    from rng q ei obtain si where "startIndex q = Some si" "si \<le> ei"
      unfolding rangeOrdered_def by blast
    with sj ei show ?thesis by auto
  qed
  show "\<forall>q\<in>set prev. apartInRow q p"
    unfolding apartInRow_def using same by blast
  show "rowEndsCover re' (prev @ [p])"
    unfolding rowEndsCover_def
  proof
    fix q assume "q \<in> set (prev @ [p])"
    then consider "q = p" | "q \<in> set prev" "row q = row p" | "q \<in> set prev" "row q \<noteq> row p"
      by auto
    then show "0 \<le> row q \<and> nat (row q) < length re'
        \<and> (\<forall>v. re' ! nat (row q) = Some v \<longrightarrow> (\<exists>e. endIndex q = Some e \<and> e \<le> v))"
    proof cases
      case 1
      with r(1,2,3) show ?thesis by auto
    next
      case 2
      from same[OF 2] obtain ei sj where f: "endIndex q = Some ei" "startIndex p = Some sj" "ei < sj"
        by blast
      have "\<exists>e. endIndex q = Some e \<and> e \<le> v" if "re' ! nat (row q) = Some v" for v
      proof -
        from that 2 r(3) have "endIndex p = Some v" by simp
        with ro f(2) have "sj \<le> v" unfolding rangeOrdered_def by auto
        with f show ?thesis by auto
      qed
      with r(1,2) 2 show ?thesis by auto
    next
      case 3
      from inv 3(1) have q: "0 \<le> row q" "nat (row q) < length re"
        "\<forall>v. re ! nat (row q) = Some v \<longrightarrow> (\<exists>e. endIndex q = Some e \<and> e \<le> v)"
        unfolding rowEndsCover_def by auto
      from q(1) r(1) 3(2) have "nat (row q) \<noteq> nat (row p)" by simp
      from r(5)[OF q(2) this] q r(4) show ?thesis by auto
    qed
  qed
qed

lemma mapExperiments_invariant:
  assumes "rowEndsCover re prev" and "\<forall>q\<in>set prev. rangeOrdered q"
    and "sorted_wrt apartInRow prev" and "mapExperiments ws re items = (ps, re')"
  shows "rowEndsCover re' (prev @ ps) \<and> sorted_wrt apartInRow (prev @ ps)
    \<and> (\<forall>q\<in>set (prev @ ps). rangeOrdered q)"
  using assms
proof (induction items arbitrary: re prev ps re')
  case Nil
  then show ?case by simp
next
  case (Cons item items)
  obtain p re1 where pe: "positionExperiment ws re item = (p, re1)" by (cases "positionExperiment ws re item")
  obtain ps1 re2 where me: "mapExperiments ws re1 items = (ps1, re2)" by (cases "mapExperiments ws re1 items")
  from Cons.prems(4) pe me have eq: "ps = p # ps1" "re' = re2" by simp_all
  note st = positionExperiment_step[OF Cons.prems(1,2) pe]
  have "sorted_wrt apartInRow (prev @ [p])"
    using Cons.prems(3) st(2) by (simp add: sorted_wrt_append)
  moreover have "\<forall>q\<in>set (prev @ [p]). rangeOrdered q"
    using Cons.prems(2) st(3) by simp
  ultimately have "rowEndsCover re2 ((prev @ [p]) @ ps1) \<and> sorted_wrt apartInRow ((prev @ [p]) @ ps1)
    \<and> (\<forall>q\<in>set ((prev @ [p]) @ ps1). rangeOrdered q)"
    using Cons.IH[OF st(1) _ _ me] by blast
  with eq show ?case by simp
qed

lemma positionedExperiments_layoutTimeline:
  "positionedExperiments (layoutTimeline now experiments releases windowStartIso)
     = fst (mapExperiments (utcDate windowStartIso) [] (sort_key ExperimentItem.startDate experiments))"
  by (simp add: layoutTimeline_def Let_def split: prod.splits)

text \<open>
  Claim C1. Two positioned experiments of the same row never share or touch a day:
  of any two entries of \<open>positionedExperiments\<close> with equal \<open>row\<close>, the later one in
  the list has a start index strictly above the end index of the earlier one (both
  are numbers), and each of the two ranges is ordered. So two experiments whose
  ranges overlap or touch are in different rows. No assumption is made on the input.
\<close>

theorem layoutTimeline_rows_apart:
  assumes "ps = positionedExperiments (layoutTimeline now experiments releases windowStartIso)"
    and "i < j" and "j < length ps" and "row (ps ! i) = row (ps ! j)"
  shows "\<exists>si ei sj. startIndex (ps ! i) = Some si \<and> endIndex (ps ! i) = Some ei
           \<and> startIndex (ps ! j) = Some sj \<and> si \<le> ei \<and> ei < sj
           \<and> (\<forall>ej. endIndex (ps ! j) = Some ej \<longrightarrow> sj \<le> ej)"
proof -
  obtain re where me: "mapExperiments (utcDate windowStartIso) []
      (sort_key ExperimentItem.startDate experiments) = (ps, re)"
    using assms(1) unfolding positionedExperiments_layoutTimeline
    by (cases "mapExperiments (utcDate windowStartIso) [] (sort_key ExperimentItem.startDate experiments)") simp
  have "rowEndsCover [] []" by (simp add: rowEndsCover_def)
  from mapExperiments_invariant[OF this _ _ me]
  have sw: "sorted_wrt apartInRow ps" and ro: "\<forall>q\<in>set ps. rangeOrdered q" by simp_all
  from sw assms(2,3) have "apartInRow (ps ! i) (ps ! j)"
    by (simp add: sorted_wrt_iff_nth_less)
  with assms(4) obtain si ei sj where f: "startIndex (ps ! i) = Some si" "endIndex (ps ! i) = Some ei"
    "startIndex (ps ! j) = Some sj" "si \<le> ei" "ei < sj"
    unfolding apartInRow_def by blast
  from ro assms(3) have "rangeOrdered (ps ! j)" by simp
  with f(3) have "\<forall>ej. endIndex (ps ! j) = Some ej \<longrightarrow> sj \<le> ej"
    unfolding rangeOrdered_def by auto
  with f show ?thesis by blast
qed

lemma utcDate_2024_01_06: "utcDate (asc ''2024-01-06'') = Some 1704499200000"
  by (simp add: date_defs asc_simps)

lemma date_string_order2: "asc ''2024-01-03'' \<le> asc ''2024-01-06''"
  by (simp_all add: asc_simps)

theorem layoutTimeline_rows_apart_witness:
  "let ps = positionedExperiments (layoutTimeline 0
              [\<lparr> ExperimentItem.id = asc ''a'', name = asc ''A'', url = [],
                  startDate = asc ''2024-01-03'', endDate = asc ''2024-01-05'', stage = [] \<rparr>,
               \<lparr> ExperimentItem.id = asc ''b'', name = asc ''B'', url = [],
                  startDate = asc ''2024-01-06'', endDate = asc ''2024-01-08'', stage = [] \<rparr>]
              [] (asc ''2024-01-01''))
   in (0::nat) < 1 \<and> 1 < length ps \<and> row (ps ! 0) = row (ps ! 1)
      \<and> (\<exists>si ei sj. startIndex (ps ! 0) = Some si \<and> endIndex (ps ! 0) = Some ei
           \<and> startIndex (ps ! 1) = Some sj \<and> si \<le> ei \<and> ei < sj
           \<and> (\<forall>ej. endIndex (ps ! 1) = Some ej \<longrightarrow> sj \<le> ej))"
proof -
  define ps where "ps = positionedExperiments (layoutTimeline 0
              [\<lparr> ExperimentItem.id = asc ''a'', name = asc ''A'', url = [],
                  startDate = asc ''2024-01-03'', endDate = asc ''2024-01-05'', stage = [] \<rparr>,
               \<lparr> ExperimentItem.id = asc ''b'', name = asc ''B'', url = [],
                  startDate = asc ''2024-01-06'', endDate = asc ''2024-01-08'', stage = [] \<rparr>]
              [] (asc ''2024-01-01''))"
  have rows: "map row ps = [0, 0]"
    unfolding ps_def layoutTimeline_def
    by (simp add: utcDate_2024_01_01 utcDate_2024_01_03 utcDate_2024_01_05 utcDate_2024_01_06
      utcDate_2024_01_08 date_string_order2 positionExperiment_def num_defs Let_def
      ExperimentItem.extend_def PositionedExperiment.fields_def)
  then have l: "length ps = 2" by (metis length_map length_Cons list.size(3) numeral_2_eq_2)
  have h1: "(0::nat) < 1" by simp
  have h2: "1 < length ps" using l by simp
  have "map row ps ! 0 = map row ps ! 1" unfolding rows by simp
  then have h3: "row (ps ! 0) = row (ps ! 1)" using l by simp
  from layoutTimeline_rows_apart[OF ps_def h1 h2 h3] h1 h2 h3
  show ?thesis unfolding ps_def[symmetric] Let_def by blast
qed

lemma laterDate_Some:
  "laterDate (Some a) c = Some (case c of None \<Rightarrow> a | Some v \<Rightarrow> max a v)"
  by (auto simp: laterDate_def jsGt_def split: option.splits)

lemma foldl_laterDate:
  "foldl laterDate (Some a) cs = Some (Max (insert a {v. Some v \<in> set cs}))"
proof (induction cs arbitrary: a)
  case Nil
  then show ?case by simp
next
  case (Cons c cs)
  have fin: "finite {v. Some v \<in> set cs}"
  proof -
    have "{v. Some v \<in> set cs} \<subseteq> the ` set cs" by force
    then show ?thesis by (rule finite_subset) simp
  qed
  show ?case
  proof (cases c)
    case None
    then have "{v. Some v \<in> set (c # cs)} = {v. Some v \<in> set cs}" by auto
    with None Cons.IH[of a] show ?thesis by (simp add: laterDate_Some)
  next
    case (Some v)
    then have s: "{w. Some w \<in> set (c # cs)} = insert v {w. Some w \<in> set cs}" by auto
    have "Max (insert (max a v) {w. Some w \<in> set cs}) = Max (insert a (insert v {w. Some w \<in> set cs}))"
      using fin by (cases "{w. Some w \<in> set cs} = {}") (auto simp: max.assoc)
    with Some Cons.IH[of "max a v"] s show ?thesis by (simp add: laterDate_Some)
  qed
qed

lemma layoutTimeline_window:
  "TimelineLayout.startDate (layoutTimeline now experiments releases windowStartIso) = utcDate windowStartIso"
  "TimelineLayout.endDate (layoutTimeline now experiments releases windowStartIso)
     = foldl laterDate (startOfUtcDay (Some now))
         ([startOfUtcDay (Some now)] @ map (\<lambda>exp. utcDate (ExperimentItem.endDate exp)) experiments
            @ map (\<lambda>rel. utcDate (date rel)) releases)"
  "totalDays (layoutTimeline now experiments releases windowStartIso)
     = mathMax (Some 1) (jsPlus (diffDays
         (TimelineLayout.startDate (layoutTimeline now experiments releases windowStartIso))
         (TimelineLayout.endDate (layoutTimeline now experiments releases windowStartIso))) (Some 1))"
  by (simp_all add: layoutTimeline_def Let_def split: prod.splits)

lemma msPerDay_numeral: "(24::int) * 60 * 60 * 1000 = 86400000"
  by simp

lemma diffDays_Some:
  "diffDays (Some s) (Some e) = Some ((2 * (e - s) + 86400000) div (2 * 86400000))"
  unfolding diffDays_def mathRoundDiv_def jsMinus_def jsArith_def msPerDay_numeral option.case ..

lemma roundDiv_nonneg:
  fixes n m :: int
  assumes "0 < m" and "0 \<le> n"
  shows "0 \<le> (2 * n + m) div (2 * m)"
proof -
  from assms have "0 < 2 * m" and "0 \<le> 2 * n + m" by simp_all
  then show ?thesis by (simp only: pos_imp_zdiv_nonneg_iff)
qed

text \<open>
  Claim C2, as amended. For a well-formed window start, \<open>endDate\<close> is the latest of
  today, the experiment end dates and the release dates, and \<open>totalDays\<close> is
  \<open>max(1, diffDays(startDate, endDate) + 1)\<close>: it is at least 1, and it equals
  \<open>diffDays(startDate, endDate) + 1\<close> whenever the window start is not after
  \<open>endDate\<close>.
\<close>

theorem layoutTimeline_totalDays:
  assumes "utcDate windowStartIso = Some s"
    and "L = layoutTimeline now experiments releases windowStartIso"
    and "today = msPerDay * (now div msPerDay)"
  shows "\<exists>e d. TimelineLayout.startDate L = Some s
           \<and> TimelineLayout.endDate L = Some e
           \<and> e = Max ({today} \<union> {t. \<exists>exp\<in>set experiments. utcDate (ExperimentItem.endDate exp) = Some t}
                        \<union> {t. \<exists>rel\<in>set releases. utcDate (date rel) = Some t})
           \<and> diffDays (TimelineLayout.startDate L) (TimelineLayout.endDate L) = Some d
           \<and> totalDays L = Some (max 1 (d + 1))
           \<and> 1 \<le> max 1 (d + 1)
           \<and> (s \<le> e \<longrightarrow> totalDays L = Some (d + 1))"
proof -
  let ?cs = "[Some today] @ map (\<lambda>exp. utcDate (ExperimentItem.endDate exp)) experiments
            @ map (\<lambda>rel. utcDate (date rel)) releases"
  define e where "e = Max (insert today {v. Some v \<in> set ?cs})"
  have t: "startOfUtcDay (Some now) = Some today" by (simp add: startOfUtcDay_def assms(3))
  have mem: "Some v \<in> set ?cs \<longleftrightarrow> v = today
      \<or> (\<exists>exp\<in>set experiments. utcDate (ExperimentItem.endDate exp) = Some v)
      \<or> (\<exists>rel\<in>set releases. utcDate (date rel) = Some v)" for v
  proof -
    have "Some v \<in> (\<lambda>exp. utcDate (ExperimentItem.endDate exp)) ` set experiments
        \<longleftrightarrow> (\<exists>exp\<in>set experiments. utcDate (ExperimentItem.endDate exp) = Some v)"
      by (rule iffI; erule imageE bexE; force)
    moreover have "Some v \<in> (\<lambda>rel. utcDate (date rel)) ` set releases
        \<longleftrightarrow> (\<exists>rel\<in>set releases. utcDate (date rel) = Some v)"
      by (rule iffI; erule imageE bexE; force)
    ultimately show ?thesis by (simp add: eq_commute[of today])
  qed
  have set_eq: "insert today {v. Some v \<in> set ?cs} =
      {today} \<union> {t. \<exists>exp\<in>set experiments. utcDate (ExperimentItem.endDate exp) = Some t}
        \<union> {t. \<exists>rel\<in>set releases. utcDate (date rel) = Some t}"
    unfolding mem by blast
  have sd: "TimelineLayout.startDate L = Some s"
    unfolding assms(2) layoutTimeline_window using assms(1) by simp
  have ed: "TimelineLayout.endDate L = Some e"
    unfolding assms(2) layoutTimeline_window(2) t foldl_laterDate e_def ..
  define d where "d = (2 * (e - s) + 86400000) div (2 * 86400000)"
  have dd: "diffDays (TimelineLayout.startDate L) (TimelineLayout.endDate L) = Some d"
    unfolding sd ed diffDays_Some d_def ..
  have td: "totalDays L = Some (max 1 (d + 1))"
    using dd unfolding assms(2) layoutTimeline_window(3)
    by (simp add: mathMax_def jsPlus_def jsArith_def)
  have "0 \<le> d" if "s \<le> e"
    unfolding d_def using that by (intro roundDiv_nonneg) simp_all
  then have "s \<le> e \<longrightarrow> totalDays L = Some (d + 1)" using td by (simp add: max_def)
  moreover have "1 \<le> max 1 (d + 1)" by simp
  moreover have "e = Max ({today} \<union> {t. \<exists>exp\<in>set experiments. utcDate (ExperimentItem.endDate exp) = Some t}
                        \<union> {t. \<exists>rel\<in>set releases. utcDate (date rel) = Some t})"
    unfolding e_def set_eq ..
  ultimately show ?thesis using sd ed dd td by blast
qed

lemma startOfUtcDay_example: "startOfUtcDay (Some 1704067200123) = Some 1704067200000"
  by (simp add: startOfUtcDay_def msPerDay_def)

text \<open>
  Claim C2 as stated fails when the window starts after \<open>endDate\<close>: with the window
  start 2024-01-10, the current instant on 2024-01-01 and no items, \<open>totalDays\<close> is 1
  while \<open>diffDays(startDate, endDate) + 1\<close> is \<open>-8\<close>.
\<close>

theorem layoutTimeline_totalDays_counterexample:
  "totalDays (layoutTimeline 1704067200123 [] [] (asc ''2024-01-10'')) = Some 1
   \<and> jsPlus (diffDays
        (TimelineLayout.startDate (layoutTimeline 1704067200123 [] [] (asc ''2024-01-10'')))
        (TimelineLayout.endDate (layoutTimeline 1704067200123 [] [] (asc ''2024-01-10''))))
       (Some 1) = Some (- 8)"
  unfolding layoutTimeline_window
  by (simp add: startOfUtcDay_example utcDate_2024_01_10 laterDate_def num_defs)

theorem layoutTimeline_totalDays_witness:
  "utcDate (asc ''2024-01-01'') = Some 1704067200000
   \<and> (\<exists>e d. TimelineLayout.endDate (layoutTimeline 1704067200123
          [\<lparr> ExperimentItem.id = asc ''a'', name = asc ''A'', url = [],
              startDate = asc ''2024-01-03'', endDate = asc ''2024-01-10'', stage = [] \<rparr>]
          [] (asc ''2024-01-01'')) = Some e
        \<and> 1704067200000 \<le> e
        \<and> diffDays (Some 1704067200000) (Some e) = Some d
        \<and> totalDays (layoutTimeline 1704067200123
          [\<lparr> ExperimentItem.id = asc ''a'', name = asc ''A'', url = [],
              startDate = asc ''2024-01-03'', endDate = asc ''2024-01-10'', stage = [] \<rparr>]
          [] (asc ''2024-01-01'')) = Some (d + 1))"
proof -
  define L where "L = layoutTimeline 1704067200123
          [\<lparr> ExperimentItem.id = asc ''a'', name = asc ''A'', url = [],
              startDate = asc ''2024-01-03'', endDate = asc ''2024-01-10'', stage = [] \<rparr>]
          [] (asc ''2024-01-01'')"
  have v: "TimelineLayout.endDate L = Some 1704844800000"
    unfolding L_def layoutTimeline_window
    by (simp add: startOfUtcDay_example utcDate_2024_01_10 laterDate_def num_defs)
  from layoutTimeline_totalDays[OF utcDate_2024_01_01 L_def refl]
  obtain e d where f: "TimelineLayout.startDate L = Some 1704067200000"
    "TimelineLayout.endDate L = Some e"
    "diffDays (TimelineLayout.startDate L) (TimelineLayout.endDate L) = Some d"
    "1704067200000 \<le> e \<longrightarrow> totalDays L = Some (d + 1)"
    by blast
  from v f(2) have e: "e = 1704844800000" by simp
  then have le: "1704067200000 \<le> e" by simp
  with f(4) have "totalDays L = Some (d + 1)" by blast
  with f le utcDate_2024_01_01 show ?thesis unfolding L_def by metis
qed

lemma mathMax_simps:
  "mathMax None b = None" "mathMax a None = None" "mathMax (Some x) (Some y) = Some (max x y)"
  by (simp_all add: mathMax_def jsArith_def split: option.splits)

lemma jsPlus_simps:
  "jsPlus None b = None" "jsPlus a None = None" "jsPlus (Some x) (Some y) = Some (x + y)"
  by (simp_all add: jsPlus_def jsArith_def split: option.splits)

lemma jsTimes_simps:
  "jsTimes None b = None" "jsTimes a None = None" "jsTimes (Some x) (Some y) = Some (x * y)"
  by (simp_all add: jsTimes_def jsArith_def split: option.splits)

lemma mapReleases_Cons:
  "mapReleases ws st (item # items) =
     (fst (positionRelease ws st item) # fst (mapReleases ws (snd (positionRelease ws st item)) items),
      snd (mapReleases ws (snd (positionRelease ws st item)) items))"
  by (simp add: Let_def split: prod.splits)

lemma positionRelease_alt:
  "positionRelease windowStart state item =
     (let laneOccupancy = fst state;
          maxReleaseLabelEnd = snd state;
          dayIndex = mathMax (Some 0) (diffDays windowStart (utcDate (date item)));
          x = releaseX windowStart item;
          labelWidth = releaseLabelWidth item;
          lane = findIndex (\<lambda>occupiedUntil. jsGt x (jsPlus occupiedUntil (Some 12))) laneOccupancy;
          maxEnd = mathMax maxReleaseLabelEnd (jsPlus (jsPlus x (Some labelWidth)) (Some 20))
      in if lane < 0
         then (ReleaseItem.extend item
                 (PositionedRelease.fields (int (length laneOccupancy)) dayIndex
                    (jsPlus x (Some labelWidth))),
               laneOccupancy @ [jsPlus x (Some labelWidth)], maxEnd)
         else (ReleaseItem.extend item
                 (PositionedRelease.fields lane dayIndex (jsPlus x (Some labelWidth))),
               laneOccupancy[nat lane := jsPlus x (Some labelWidth)], maxEnd))"
  unfolding positionRelease_def releaseX_def releaseLabelWidth_def Let_def ..

lemma positionRelease_fields:
  assumes "positionRelease ws (occ, m) item = (p, occ', m')"
  shows "ReleaseItem.truncate p = item"
    and "dayIndex p = mathMax (Some 0) (diffDays ws (utcDate (date item)))"
    and "labelEnd p = jsPlus (releaseX ws item) (Some (releaseLabelWidth item))"
    and "m' = mathMax m (jsPlus (labelEnd p) (Some 20))"
    and "lane p = (let i = findIndex (\<lambda>occupiedUntil. jsGt (releaseX ws item) (jsPlus occupiedUntil (Some 12))) occ
                   in if i < 0 then int (length occ) else i)"
    and "occ' = (if nat (lane p) < length occ then occ[nat (lane p) := labelEnd p] else occ @ [labelEnd p])"
  using assms findIndex_lt_length[of "\<lambda>occupiedUntil. jsGt (releaseX ws item) (jsPlus occupiedUntil (Some 12))" occ]
  by (auto simp: positionRelease_alt Let_def ReleaseItem.extend_def ReleaseItem.truncate_def
      PositionedRelease.fields_def split: if_splits)

lemma mapReleases_append:
  "mapReleases ws st (xs @ ys) =
     (fst (mapReleases ws st xs) @ fst (mapReleases ws (snd (mapReleases ws st xs)) ys),
      snd (mapReleases ws (snd (mapReleases ws st xs)) ys))"
  by (induction xs arbitrary: st) (simp_all add: mapReleases_Cons del: mapReleases.simps(2))

lemma mapReleases_length: "length (fst (mapReleases ws st items)) = length items"
  by (induction items arbitrary: st) (simp_all add: mapReleases_Cons del: mapReleases.simps(2))

lemma mapReleases_maxEnd:
  "mapReleases ws (occ, m) items = (ps, occ', m') \<Longrightarrow>
     m' = foldl mathMax m (map (\<lambda>p. jsPlus (labelEnd p) (Some 20)) ps)"
proof (induction items arbitrary: occ m ps occ' m')
  case Nil
  then show ?case by simp
next
  case (Cons item items)
  obtain p occ1 m1 where pr: "positionRelease ws (occ, m) item = (p, occ1, m1)"
    by (cases "positionRelease ws (occ, m) item") auto
  obtain ps1 occ2 m2 where mr: "mapReleases ws (occ1, m1) items = (ps1, occ2, m2)"
    by (cases "mapReleases ws (occ1, m1) items") auto
  from Cons.prems pr mr have eq: "ps = p # ps1" "m' = m2" by simp_all
  from Cons.IH[OF mr] positionRelease_fields(4)[OF pr] eq show ?case by simp
qed

lemma positionRelease_fst:
  "ReleaseItem.truncate (fst (positionRelease ws st item)) = item"
  "labelEnd (fst (positionRelease ws st item)) = jsPlus (releaseX ws item) (Some (releaseLabelWidth item))"
proof -
  obtain p occ1 m1 where pr: "positionRelease ws (fst st, snd st) item = (p, occ1, m1)"
    by (cases "positionRelease ws (fst st, snd st) item") auto
  from positionRelease_fields(1,3)[OF pr] pr
  show "ReleaseItem.truncate (fst (positionRelease ws st item)) = item"
    and "labelEnd (fst (positionRelease ws st item)) = jsPlus (releaseX ws item) (Some (releaseLabelWidth item))"
    by simp_all
qed

lemma mapReleases_items:
  "map ReleaseItem.truncate (fst (mapReleases ws st items)) = items"
  by (induction items arbitrary: st)
    (simp_all add: mapReleases_Cons positionRelease_fst del: mapReleases.simps(2))

lemma mapReleases_labelEnd:
  "map labelEnd (fst (mapReleases ws st items))
     = map (\<lambda>item. jsPlus (releaseX ws item) (Some (releaseLabelWidth item))) items"
  by (induction items arbitrary: st)
    (simp_all add: mapReleases_Cons positionRelease_fst del: mapReleases.simps(2))

lemma foldl_mathMax_None: "foldl mathMax None xs = None"
  by (induction xs) (simp_all add: mathMax_simps)

lemma foldl_mathMax_Some:
  "foldl mathMax (Some a) xs = Some c \<Longrightarrow>
     (\<forall>x\<in>set xs. x \<noteq> None) \<and> c = Max (insert a (the ` set xs))"
proof (induction xs arbitrary: a)
  case Nil
  then show ?case by simp
next
  case (Cons x xs)
  show ?case
  proof (cases x)
    case None
    with Cons.prems show ?thesis by (simp add: mathMax_simps foldl_mathMax_None)
  next
    case (Some v)
    with Cons.prems have "foldl mathMax (Some (max a v)) xs = Some c"
      by (simp add: mathMax_simps)
    from Cons.IH[OF this] have n: "\<forall>x\<in>set xs. x \<noteq> None"
      and c: "c = Max (insert (max a v) (the ` set xs))" by simp_all
    have "Max (insert (max a v) (the ` set xs)) = Max (insert a (insert v (the ` set xs)))"
      by (cases "set xs = {}") (auto simp: max.assoc)
    with n c Some show ?thesis by simp
  qed
qed

lemma foldl_mathMax_defined:
  "\<forall>x\<in>set xs. x \<noteq> None \<Longrightarrow> \<exists>c. foldl mathMax (Some a) xs = Some c"
  by (induction xs arbitrary: a) (auto simp: mathMax_simps)

lemma layoutTimeline_releases:
  "positionedReleases (layoutTimeline now experiments releases windowStartIso)
     = fst (mapReleases (utcDate windowStartIso)
         ([], jsTimes (totalDays (layoutTimeline now experiments releases windowStartIso)) (Some DAY_WIDTH))
         (sort_key date releases))"
  "canvasWidth (layoutTimeline now experiments releases windowStartIso)
     = mathMax (jsTimes (totalDays (layoutTimeline now experiments releases windowStartIso)) (Some DAY_WIDTH))
        (snd (snd (mapReleases (utcDate windowStartIso)
         ([], jsTimes (totalDays (layoutTimeline now experiments releases windowStartIso)) (Some DAY_WIDTH))
         (sort_key date releases))))"
  by (simp_all add: layoutTimeline_def Let_def split: prod.splits)

lemma layoutTimeline_canvas_fold:
  "canvasWidth (layoutTimeline now experiments releases windowStartIso)
     = foldl mathMax (jsTimes (totalDays (layoutTimeline now experiments releases windowStartIso)) (Some DAY_WIDTH))
         (map (\<lambda>p. jsPlus (labelEnd p) (Some 20))
            (positionedReleases (layoutTimeline now experiments releases windowStartIso)))"
proof -
  let ?L = "layoutTimeline now experiments releases windowStartIso"
  let ?m0 = "jsTimes (totalDays ?L) (Some DAY_WIDTH)"
  obtain ps occ m where mr: "mapReleases (utcDate windowStartIso) ([], ?m0) (sort_key date releases) = (ps, occ, m)"
    by (cases "mapReleases (utcDate windowStartIso) ([], ?m0) (sort_key date releases)") auto
  let ?xs = "map (\<lambda>p. jsPlus (labelEnd p) (Some 20)) ps"
  have m: "m = foldl mathMax ?m0 ?xs" by (rule mapReleases_maxEnd[OF mr])
  have "mathMax ?m0 m = m"
  proof (cases ?m0)
    case None
    then show ?thesis unfolding m by (simp add: foldl_mathMax_None mathMax_simps)
  next
    case (Some a)
    show ?thesis
    proof (cases m)
      case None
      then show ?thesis by (simp add: mathMax_simps)
    next
      case (Some c)
      with \<open>?m0 = Some a\<close> m have "foldl mathMax (Some a) ?xs = Some c" by simp
      from foldl_mathMax_Some[OF this] have "c = Max (insert a (the ` set ?xs))" by simp
      then have "a \<le> c" by simp
      with Some \<open>?m0 = Some a\<close> show ?thesis by (simp add: mathMax_simps)
    qed
  qed
  with m mr show ?thesis unfolding layoutTimeline_releases by simp
qed


lemma layoutTimeline_totalDays_defined:
  assumes "utcDate windowStartIso = Some s"
  shows "\<exists>t. totalDays (layoutTimeline now experiments releases windowStartIso) = Some t \<and> 1 \<le> t"
proof -
  let ?L = "layoutTimeline now experiments releases windowStartIso"
  have "\<exists>e. TimelineLayout.endDate ?L = Some e"
    unfolding layoutTimeline_window(2) startOfUtcDay_def option.case foldl_laterDate by blast
  then obtain e where e: "TimelineLayout.endDate ?L = Some e" ..
  have sd: "TimelineLayout.startDate ?L = Some s"
    unfolding layoutTimeline_window(1) by (rule assms)
  show ?thesis
    unfolding layoutTimeline_window(3) sd e diffDays_Some jsPlus_simps mathMax_simps by simp
qed

lemma releaseX_defined:
  "ws \<noteq> None \<Longrightarrow> utcDate (date item) \<noteq> None \<Longrightarrow> releaseX ws item \<noteq> None"
  by (auto simp: releaseX_def Let_def diffDays_Some mathMax_simps jsTimes_simps jsPlus_simps)

text \<open>
  Claim C5. \<open>canvasWidth\<close> is the maximum, taken with \<open>Math.max\<close>, of
  \<open>totalDays * DAY_WIDTH\<close> and of \<open>labelEnd + 20\<close> (that is \<open>x + labelWidth + 20\<close>) over
  the positioned releases. For a well-formed window start and well-formed release
  dates it is a number; and whenever it is a number, so are \<open>totalDays\<close> and every
  \<open>labelEnd\<close>, \<open>canvasWidth\<close> is the greatest of those values, it is at least
  \<open>totalDays * DAY_WIDTH\<close>, and at least \<open>labelEnd + 20\<close> for every positioned release.
\<close>

theorem layoutTimeline_canvasWidth:
  assumes "L = layoutTimeline now experiments releases windowStartIso"
  shows "canvasWidth L = foldl mathMax (jsTimes (totalDays L) (Some DAY_WIDTH))
            (map (\<lambda>p. jsPlus (labelEnd p) (Some 20)) (positionedReleases L))
    \<and> (utcDate windowStartIso \<noteq> None \<and> (\<forall>r\<in>set releases. utcDate (date r) \<noteq> None)
          \<longrightarrow> canvasWidth L \<noteq> None)
    \<and> (\<forall>c. canvasWidth L = Some c \<longrightarrow>
          (\<exists>t. totalDays L = Some t
             \<and> c = Max (insert (t * DAY_WIDTH) ((\<lambda>p. the (labelEnd p) + 20) ` set (positionedReleases L)))
             \<and> t * DAY_WIDTH \<le> c
             \<and> (\<forall>p\<in>set (positionedReleases L). \<exists>e. labelEnd p = Some e \<and> e + 20 \<le> c)))"
proof (intro conjI impI allI)
  let ?ps = "positionedReleases L"
  let ?xs = "map (\<lambda>p. jsPlus (labelEnd p) (Some 20)) ?ps"
  show fold: "canvasWidth L = foldl mathMax (jsTimes (totalDays L) (Some DAY_WIDTH)) ?xs"
    unfolding assms by (rule layoutTimeline_canvas_fold)
  {
    assume wf: "utcDate windowStartIso \<noteq> None \<and> (\<forall>r\<in>set releases. utcDate (date r) \<noteq> None)"
    then obtain s where s: "utcDate windowStartIso = Some s" by auto
    from layoutTimeline_totalDays_defined[OF s] obtain t where t: "totalDays L = Some t"
      unfolding assms by blast
    have "map labelEnd ?ps = map (\<lambda>item. jsPlus (releaseX (utcDate windowStartIso) item)
        (Some (releaseLabelWidth item))) (sort_key date releases)"
      unfolding assms layoutTimeline_releases(1) by (rule mapReleases_labelEnd)
    then have "set (map labelEnd ?ps) = (\<lambda>item. jsPlus (releaseX (utcDate windowStartIso) item)
        (Some (releaseLabelWidth item))) ` set releases"
      by simp
    moreover have "jsPlus (releaseX (utcDate windowStartIso) item) (Some (releaseLabelWidth item)) \<noteq> None"
      if "item \<in> set releases" for item
      using releaseX_defined[of "utcDate windowStartIso" item] wf that by (auto simp: jsPlus_simps)
    ultimately have "\<forall>x\<in>set (map labelEnd ?ps). x \<noteq> None" by auto
    then have "\<forall>x\<in>set ?xs. x \<noteq> None" by (auto simp: jsPlus_simps)
    from foldl_mathMax_defined[OF this] show "canvasWidth L \<noteq> None"
      unfolding fold t jsTimes_simps by auto
  }
  fix c assume c: "canvasWidth L = Some c"
  obtain t where t: "totalDays L = Some t"
    using c unfolding fold by (cases "totalDays L") (simp_all add: jsTimes_simps foldl_mathMax_None)
  from c have "foldl mathMax (Some (t * DAY_WIDTH)) ?xs = Some c"
    unfolding fold t jsTimes_simps .
  from foldl_mathMax_Some[OF this] have n: "\<forall>x\<in>set ?xs. x \<noteq> None"
    and m: "c = Max (insert (t * DAY_WIDTH) (the ` set ?xs))" by simp_all
  have le: "\<exists>e. labelEnd p = Some e" if "p \<in> set ?ps" for p
    using n that by (cases "labelEnd p") (auto simp: jsPlus_simps)
  have img: "the ` set ?xs = (\<lambda>p. the (labelEnd p) + 20) ` set ?ps"
  proof -
    have "the (jsPlus (labelEnd p) (Some 20)) = the (labelEnd p) + 20" if "p \<in> set ?ps" for p
      using le[OF that] by (auto simp: jsPlus_simps)
    then show ?thesis by (auto simp: image_iff)
  qed
  have cm: "c = Max (insert (t * DAY_WIDTH) ((\<lambda>p. the (labelEnd p) + 20) ` set ?ps))"
    using m unfolding img .
  have b1: "t * DAY_WIDTH \<le> c" unfolding cm by simp
  have b2: "\<forall>p\<in>set ?ps. \<exists>e. labelEnd p = Some e \<and> e + 20 \<le> c"
  proof
    fix p assume p: "p \<in> set ?ps"
    from le[OF p] obtain e where e: "labelEnd p = Some e" ..
    have "the (labelEnd p) + 20 \<le> c" unfolding cm using p by (intro Max_ge) auto
    with e show "\<exists>e. labelEnd p = Some e \<and> e + 20 \<le> c" by simp
  qed
  from t cm b1 b2
  show "\<exists>t. totalDays L = Some t
      \<and> c = Max (insert (t * DAY_WIDTH) ((\<lambda>p. the (labelEnd p) + 20) ` set ?ps))
      \<and> t * DAY_WIDTH \<le> c
      \<and> (\<forall>p\<in>set ?ps. \<exists>e. labelEnd p = Some e \<and> e + 20 \<le> c)"
    by blast
qed

lemmas regex_defs = regexExec_def matchSpaces_def matchVersion_def matchSuffix_def runLength_def
  isAny_def isLineTerminator_def isSpace_def isVersionChar_def isDigit_def

lemma compactReleaseLabel_iOS: "compactReleaseLabel (asc ''iOS 4.2 hotfix'') = asc ''iOS 4.2''"
proof -
  have m: "regexExec (asc ''iOS 4.2 hotfix'') = Some (3, 1, 3)"
    by (simp add: regex_defs asc_simps)
  show ?thesis unfolding compactReleaseLabel_def m by (simp add: asc_simps)
qed

lemma releaseLabelWidth_iOS:
  "releaseLabelWidth \<lparr> ReleaseItem.id = i, name = asc ''iOS 4.2 hotfix'', url = u,
         date = d, platform = p, status = s \<rparr> = 93"
  unfolding releaseLabelWidth_def Let_def ReleaseItem.simps compactReleaseLabel_iOS
  by (simp add: asc_simps)

lemma layoutTimeline_one_release:
  "layoutTimeline 1704067200123 []
     [\<lparr> ReleaseItem.id = asc ''r'', name = asc ''iOS 4.2 hotfix'', url = [],
         date = asc ''2024-01-10'', platform = asc ''iOS'', status = asc ''Released'' \<rparr>]
     (asc ''2024-01-01'')
   = \<lparr> TimelineLayout.startDate = Some 1704067200000, endDate = Some 1704844800000,
       totalDays = Some 10, positionedExperiments = [],
       positionedReleases =
         [\<lparr> ReleaseItem.id = asc ''r'', name = asc ''iOS 4.2 hotfix'', url = [],
            date = asc ''2024-01-10'', platform = asc ''iOS'', status = asc ''Released'',
            lane = 0, dayIndex = Some 9, labelEnd = Some 416 \<rparr>],
       experimentRows = 1, releaseLanes = 1, canvasWidth = Some 436 \<rparr>"
  unfolding layoutTimeline_def
  by (simp add: startOfUtcDay_example utcDate_2024_01_01 utcDate_2024_01_10 laterDate_def num_defs
      positionRelease_alt releaseX_def releaseLabelWidth_iOS DAY_WIDTH_def
      Let_def ReleaseItem.extend_def PositionedRelease.fields_def)

theorem layoutTimeline_canvasWidth_witness:
  "utcDate (asc ''2024-01-01'') \<noteq> None
   \<and> utcDate (date \<lparr> ReleaseItem.id = asc ''r'', name = asc ''iOS 4.2 hotfix'', url = [],
         date = asc ''2024-01-10'', platform = asc ''iOS'', status = asc ''Released'' \<rparr>) \<noteq> None
   \<and> canvasWidth (layoutTimeline 1704067200123 []
         [\<lparr> ReleaseItem.id = asc ''r'', name = asc ''iOS 4.2 hotfix'', url = [],
            date = asc ''2024-01-10'', platform = asc ''iOS'', status = asc ''Released'' \<rparr>]
         (asc ''2024-01-01'')) = Some 436
   \<and> (\<exists>t. totalDays (layoutTimeline 1704067200123 []
         [\<lparr> ReleaseItem.id = asc ''r'', name = asc ''iOS 4.2 hotfix'', url = [],
            date = asc ''2024-01-10'', platform = asc ''iOS'', status = asc ''Released'' \<rparr>]
         (asc ''2024-01-01'')) = Some t \<and> t * DAY_WIDTH \<le> 436)"
proof -
  define L where "L = layoutTimeline 1704067200123 []
         [\<lparr> ReleaseItem.id = asc ''r'', name = asc ''iOS 4.2 hotfix'', url = [],
            date = asc ''2024-01-10'', platform = asc ''iOS'', status = asc ''Released'' \<rparr>]
         (asc ''2024-01-01'')"
  have h1: "utcDate (asc ''2024-01-01'') \<noteq> None" by (simp add: utcDate_2024_01_01)
  have h2: "\<forall>r\<in>set [\<lparr> ReleaseItem.id = asc ''r'', name = asc ''iOS 4.2 hotfix'', url = [],
         date = asc ''2024-01-10'', platform = asc ''iOS'', status = asc ''Released'' \<rparr>].
        utcDate (date r) \<noteq> None" by (simp add: utcDate_2024_01_10)
  have c: "canvasWidth L = Some 436" unfolding L_def layoutTimeline_one_release by simp
  note t = layoutTimeline_canvasWidth[OF L_def]
  from t[THEN conjunct2, THEN conjunct1] h1 h2 have "canvasWidth L \<noteq> None" by blast
  from t[THEN conjunct2, THEN conjunct2, THEN spec, THEN mp, OF c]
  obtain t where "totalDays L = Some t" "t * DAY_WIDTH \<le> 436" by blast
  moreover have "utcDate (date \<lparr> ReleaseItem.id = asc ''r'', name = asc ''iOS 4.2 hotfix'', url = [],
         date = asc ''2024-01-10'', platform = asc ''iOS'', status = asc ''Released'' \<rparr>) \<noteq> None"
    using h2 by simp
  ultimately show ?thesis using h1 c unfolding L_def by blast
qed

lemma positionRelease_independent:
  "fst (positionRelease ws (occ, m) item) = fst (positionRelease ws (occ, m') item)"
  "fst (snd (positionRelease ws (occ, m) item)) = fst (snd (positionRelease ws (occ, m') item))"
  by (simp_all add: positionRelease_alt Let_def)

lemma mapReleases_independent:
  "fst (mapReleases ws (occ, m) items) = fst (mapReleases ws (occ, m') items)
   \<and> fst (snd (mapReleases ws (occ, m) items)) = fst (snd (mapReleases ws (occ, m') items))"
proof (induction items arbitrary: occ m m')
  case Nil
  then show ?case by simp
next
  case (Cons item items)
  obtain p occ1 m1 where a: "positionRelease ws (occ, m) item = (p, occ1, m1)"
    by (cases "positionRelease ws (occ, m) item") auto
  obtain p' occ1' m1' where b: "positionRelease ws (occ, m') item = (p', occ1', m1')"
    by (cases "positionRelease ws (occ, m') item") auto
  from positionRelease_independent[of ws occ m item m'] a b have "p' = p" "occ1' = occ1" by simp_all
  with a b Cons.IH[of occ1 m1 m1'] show ?case
    by (simp add: mapReleases_Cons del: mapReleases.simps(2))
qed

lemma mapReleases_nth:
  assumes "k < length items"
  shows "fst (mapReleases ws st items) ! k
     = fst (positionRelease ws (snd (mapReleases ws st (take k items))) (items ! k))"
proof -
  have "items = take k items @ (items ! k # drop (Suc k) items)"
    using assms by (simp add: id_take_nth_drop)
  then have "fst (mapReleases ws st items) ! k
      = fst (mapReleases ws st (take k items @ (items ! k # drop (Suc k) items))) ! k"
    by simp
  also have "\<dots> = fst (mapReleases ws (snd (mapReleases ws st (take k items)))
      (items ! k # drop (Suc k) items)) ! 0"
    unfolding mapReleases_append fst_conv using assms
    by (simp add: nth_append mapReleases_length)
  also have "\<dots> = fst (positionRelease ws (snd (mapReleases ws st (take k items))) (items ! k))"
    unfolding mapReleases_Cons by simp
  finally show ?thesis .
qed

lemma mapReleases_take_Suc:
  assumes "k < length items"
  shows "snd (mapReleases ws st (take (Suc k) items))
     = snd (positionRelease ws (snd (mapReleases ws st (take k items))) (items ! k))"
proof -
  have "take (Suc k) items = take k items @ [items ! k]"
    using assms by (rule take_Suc_conv_app_nth)
  then have "snd (mapReleases ws st (take (Suc k) items))
      = snd (mapReleases ws (snd (mapReleases ws st (take k items))) [items ! k])"
    by (simp add: mapReleases_append)
  then show ?thesis by (simp add: mapReleases_Cons del: mapReleases.simps(2))
qed

lemma laneOccupancyAfter_state:
  "fst (snd (mapReleases ws ([], m) items)) = laneOccupancyAfter ws items"
  unfolding laneOccupancyAfter_def using mapReleases_independent[of ws "[]" m items None] by simp

lemma releaseLabelWidth_clamp:
  "releaseLabelWidth item
     = min 240 (max 92 (int (length (compactReleaseLabel (ReleaseItem.name item))) * 7 + 44))"
  by (simp add: releaseLabelWidth_def Let_def)

lemma releaseX_dayIndex:
  "releaseX ws item
     = jsPlus (jsTimes (mathMax (Some 0) (diffDays ws (utcDate (date item)))) (Some DAY_WIDTH))
         (Some (DAY_WIDTH div 2))"
  by (simp add: releaseX_def Let_def)

text \<open>
  Claim C3. Let the releases be taken in ascending order of their date strings, and
  let \<open>occ\<close> be the lane occupancy left by the first \<open>k\<close> of them. The release at
  position \<open>k\<close> gets \<open>dayIndex = max(0, diffDays(startDate, date))\<close>, the anchor
  \<open>x = dayIndex * DAY_WIDTH + floor(DAY_WIDTH / 2)\<close> and
  \<open>labelWidth = min(240, max(92, label.length * 7 + 44))\<close> on the compacted label. Its
  lane is the lowest index whose occupancy \<open>o\<close> satisfies \<open>x > o + 12\<close>, or the next new
  index when no lane does; that lane's occupancy becomes \<open>x + labelWidth\<close>, which is
  also the release's \<open>labelEnd\<close>, and the other lanes are unchanged.
\<close>

theorem layoutTimeline_release_lane:
  assumes "k < length releases"
    and "L = layoutTimeline now experiments releases windowStartIso"
    and "item = sort_key date releases ! k"
    and "p = positionedReleases L ! k"
    and "occ = laneOccupancyAfter (utcDate windowStartIso) (take k (sort_key date releases))"
    and "x = jsPlus (jsTimes (dayIndex p) (Some DAY_WIDTH)) (Some (DAY_WIDTH div 2))"
    and "labelWidth = min 240 (max 92 (int (length (compactReleaseLabel (ReleaseItem.name item))) * 7 + 44))"
  shows "ReleaseItem.truncate p = item
    \<and> dayIndex p = mathMax (Some 0) (diffDays (utcDate windowStartIso) (utcDate (date item)))
    \<and> labelEnd p = jsPlus x (Some labelWidth)
    \<and> 0 \<le> lane p \<and> nat (lane p) \<le> length occ
    \<and> (nat (lane p) < length occ \<longrightarrow> jsGt x (jsPlus (occ ! nat (lane p)) (Some 12)))
    \<and> (\<forall>l < nat (lane p). \<not> jsGt x (jsPlus (occ ! l) (Some 12)))
    \<and> laneOccupancyAfter (utcDate windowStartIso) (take (Suc k) (sort_key date releases))
        = (if nat (lane p) < length occ then occ[nat (lane p) := jsPlus x (Some labelWidth)]
           else occ @ [jsPlus x (Some labelWidth)])"
proof -
  let ?ws = "utcDate windowStartIso"
  let ?sorted = "sort_key date releases"
  let ?m0 = "jsTimes (totalDays L) (Some DAY_WIDTH)"
  let ?P = "\<lambda>occupiedUntil. jsGt (releaseX ?ws item) (jsPlus occupiedUntil (Some 12))"
  have k: "k < length ?sorted" using assms(1) by simp
  obtain occ0 m where st: "snd (mapReleases ?ws ([], ?m0) (take k ?sorted)) = (occ0, m)"
    by (cases "snd (mapReleases ?ws ([], ?m0) (take k ?sorted))") auto
  have occ0: "occ0 = occ"
    using laneOccupancyAfter_state[of ?ws ?m0 "take k ?sorted"] st assms(5) by simp
  obtain q occ1 m1 where pr: "positionRelease ?ws (occ, m) item = (q, occ1, m1)"
    by (cases "positionRelease ?ws (occ, m) item") auto
  have "p = fst (positionRelease ?ws (occ, m) item)"
    unfolding assms(4) assms(2) layoutTimeline_releases(1) mapReleases_nth[OF k]
    using st occ0 assms(2,3) by simp
  with pr have q: "q = p" by simp
  note f = positionRelease_fields[OF pr[unfolded q]]
  have x: "releaseX ?ws item = x"
    unfolding releaseX_dayIndex assms(6) f(2) ..
  have w: "releaseLabelWidth item = labelWidth"
    unfolding releaseLabelWidth_clamp assms(7) ..
  have le: "labelEnd p = jsPlus x (Some labelWidth)"
    using f(3) unfolding x w .
  have lane: "lane p = (if findIndex ?P occ < 0 then int (length occ) else findIndex ?P occ)"
    using f(5) by (simp add: Let_def)
  have l0: "0 \<le> lane p" unfolding lane by simp
  have l1: "nat (lane p) \<le> length occ"
    unfolding lane using findIndex_lt_length[of ?P occ] by auto
  have l2: "jsGt x (jsPlus (occ ! nat (lane p)) (Some 12))" if "nat (lane p) < length occ"
  proof -
    from that have nn: "0 \<le> findIndex ?P occ" unfolding lane by (simp split: if_splits)
    then have "lane p = findIndex ?P occ" unfolding lane by simp
    with findIndex_found[OF nn] show ?thesis unfolding x by simp
  qed
  have l3: "\<not> jsGt x (jsPlus (occ ! l) (Some 12))" if "l < nat (lane p)" for l
  proof (cases "findIndex ?P occ < 0")
    case True
    then have "\<forall>v\<in>set occ. \<not> ?P v" by (simp add: findIndex_none)
    moreover from True that have "l < length occ" unfolding lane by simp
    ultimately show ?thesis unfolding x by simp
  next
    case False
    then have nn: "0 \<le> findIndex ?P occ" by simp
    with that have "l < nat (findIndex ?P occ)" unfolding lane by simp
    from findIndex_first[OF nn this] show ?thesis unfolding x .
  qed
  have "laneOccupancyAfter ?ws (take (Suc k) ?sorted)
      = fst (snd (mapReleases ?ws ([], ?m0) (take (Suc k) ?sorted)))"
    by (rule laneOccupancyAfter_state[symmetric])
  also have "\<dots> = fst (snd (positionRelease ?ws (occ, m) item))"
    unfolding mapReleases_take_Suc[OF k] st occ0 assms(3) ..
  also have "\<dots> = occ1" using pr by simp
  finally have upd: "laneOccupancyAfter ?ws (take (Suc k) ?sorted)
      = (if nat (lane p) < length occ then occ[nat (lane p) := jsPlus x (Some labelWidth)]
         else occ @ [jsPlus x (Some labelWidth)])"
    using f(6) le by simp
  from f(1) f(2) le l0 l1 l2 l3 upd show ?thesis unfolding assms(3)[symmetric] by blast
qed

lemma utcDate_2024_01_20: "utcDate (asc ''2024-01-20'') = Some 1705708800000"
  by (simp add: date_defs asc_simps)

lemma date_string_order3:
  "asc ''2024-01-05'' \<le> asc ''2024-01-20''" "asc ''2024-01-05'' \<le> asc ''2024-01-05''"
  by (simp_all add: asc_simps)

lemma compactReleaseLabel_Android: "compactReleaseLabel (asc ''Android 5.0'') = asc ''Android 5.0''"
proof -
  have m: "regexExec (asc ''Android 5.0'') = Some (7, 1, 3)"
    by (simp add: regex_defs asc_simps)
  show ?thesis unfolding compactReleaseLabel_def m by (simp add: asc_simps)
qed

lemma releaseLabelWidth_Android:
  "releaseLabelWidth \<lparr> ReleaseItem.id = i, name = asc ''Android 5.0'', url = u,
         date = d, platform = p, status = s \<rparr> = 121"
  unfolding releaseLabelWidth_def Let_def ReleaseItem.simps compactReleaseLabel_Android
  by (simp add: asc_simps)

lemmas release_eval = positionRelease_alt releaseX_def releaseLabelWidth_iOS releaseLabelWidth_Android
  DAY_WIDTH_def num_defs Let_def ReleaseItem.extend_def PositionedRelease.fields_def
  utcDate_2024_01_01 utcDate_2024_01_05 utcDate_2024_01_20 date_string_order3

theorem layoutTimeline_release_lane_witness:
  "(1::nat) < length [\<lparr> ReleaseItem.id = asc ''r1'', name = asc ''iOS 4.2 hotfix'', url = [],
         date = asc ''2024-01-05'', platform = asc ''iOS'', status = asc ''Released'' \<rparr>,
       \<lparr> ReleaseItem.id = asc ''r2'', name = asc ''Android 5.0'', url = [],
         date = asc ''2024-01-20'', platform = asc ''Android'', status = asc ''Released'' \<rparr>]
   \<and> laneOccupancyAfter (utcDate (asc ''2024-01-01'')) (take 1 (sort_key date
        [\<lparr> ReleaseItem.id = asc ''r1'', name = asc ''iOS 4.2 hotfix'', url = [],
           date = asc ''2024-01-05'', platform = asc ''iOS'', status = asc ''Released'' \<rparr>,
         \<lparr> ReleaseItem.id = asc ''r2'', name = asc ''Android 5.0'', url = [],
           date = asc ''2024-01-20'', platform = asc ''Android'', status = asc ''Released'' \<rparr>]))
       = [Some 246]
   \<and> lane (positionedReleases (layoutTimeline 1704067200123 []
        [\<lparr> ReleaseItem.id = asc ''r1'', name = asc ''iOS 4.2 hotfix'', url = [],
           date = asc ''2024-01-05'', platform = asc ''iOS'', status = asc ''Released'' \<rparr>,
         \<lparr> ReleaseItem.id = asc ''r2'', name = asc ''Android 5.0'', url = [],
           date = asc ''2024-01-20'', platform = asc ''Android'', status = asc ''Released'' \<rparr>]
        (asc ''2024-01-01'')) ! 1) = 0
   \<and> jsGt (Some 663) (jsPlus (Some 246) (Some 12))
   \<and> laneOccupancyAfter (utcDate (asc ''2024-01-01'')) (take (Suc 1) (sort_key date
        [\<lparr> ReleaseItem.id = asc ''r1'', name = asc ''iOS 4.2 hotfix'', url = [],
           date = asc ''2024-01-05'', platform = asc ''iOS'', status = asc ''Released'' \<rparr>,
         \<lparr> ReleaseItem.id = asc ''r2'', name = asc ''Android 5.0'', url = [],
           date = asc ''2024-01-20'', platform = asc ''Android'', status = asc ''Released'' \<rparr>]))
       = [Some 784]
   \<and> lane (positionedReleases (layoutTimeline 1704067200123 []
        [\<lparr> ReleaseItem.id = asc ''r1'', name = asc ''iOS 4.2 hotfix'', url = [],
           date = asc ''2024-01-05'', platform = asc ''iOS'', status = asc ''Released'' \<rparr>,
         \<lparr> ReleaseItem.id = asc ''r3'', name = asc ''Android 5.0'', url = [],
           date = asc ''2024-01-05'', platform = asc ''Android'', status = asc ''Released'' \<rparr>]
        (asc ''2024-01-01'')) ! 1) = 1
   \<and> \<not> jsGt (Some 153) (jsPlus (Some 246) (Some 12))"
proof -
  define r1 where "r1 = \<lparr> ReleaseItem.id = asc ''r1'', name = asc ''iOS 4.2 hotfix'', url = [],
         date = asc ''2024-01-05'', platform = asc ''iOS'', status = asc ''Released'' \<rparr>"
  define r2 where "r2 = \<lparr> ReleaseItem.id = asc ''r2'', name = asc ''Android 5.0'', url = [],
         date = asc ''2024-01-20'', platform = asc ''Android'', status = asc ''Released'' \<rparr>"
  define r3 where "r3 = \<lparr> ReleaseItem.id = asc ''r3'', name = asc ''Android 5.0'', url = [],
         date = asc ''2024-01-05'', platform = asc ''Android'', status = asc ''Released'' \<rparr>"
  define ws where "ws = utcDate (asc ''2024-01-01'')"
  define p2 where "p2 = positionedReleases (layoutTimeline 1704067200123 [] [r1, r2] (asc ''2024-01-01'')) ! 1"
  define p3 where "p3 = positionedReleases (layoutTimeline 1704067200123 [] [r1, r3] (asc ''2024-01-01'')) ! 1"
  have s2: "sort_key date [r1, r2] = [r1, r2]" and s3: "sort_key date [r1, r3] = [r1, r3]"
    by (simp_all add: r1_def r2_def r3_def date_string_order3)
  have occ: "laneOccupancyAfter ws [r1] = [Some 246]"
    unfolding laneOccupancyAfter_def ws_def r1_def by (simp add: release_eval)
  have d2: "dayIndex p2 = Some 19" and l2: "lane p2 = 0"
    unfolding p2_def layoutTimeline_releases(1) s2 unfolding r1_def r2_def
    by (simp_all add: release_eval)
  have d3: "dayIndex p3 = Some 4" and l3: "lane p3 = 1"
    unfolding p3_def layoutTimeline_releases(1) s3 unfolding r1_def r3_def
    by (simp_all add: release_eval)
  have w2: "min 240 (max 92 (int (length (compactReleaseLabel (ReleaseItem.name ([r1, r2] ! 1)))) * 7 + 44)) = 121"
  proof -
    have n: "ReleaseItem.name ([r1, r2] ! 1) = asc ''Android 5.0''" by (simp add: r2_def)
    have l: "length (asc ''Android 5.0'') = 11" by (simp add: asc_simps)
    show ?thesis unfolding n compactReleaseLabel_Android l by simp
  qed
  have h: "(1::nat) < length [r1, r2]" "(1::nat) < length [r1, r3]" by simp_all
  note t2 = layoutTimeline_release_lane[OF h(1) refl refl refl refl refl refl,
      of 1704067200123 "[]" "asc ''2024-01-01''", folded p2_def ws_def, unfolded s2 w2 d2 l2]
  note t3 = layoutTimeline_release_lane[OF h(2) refl refl refl refl refl refl,
      of 1704067200123 "[]" "asc ''2024-01-01''", folded p3_def ws_def, unfolded s3 d3 l3]
  have a: "jsGt (Some 663) (jsPlus (Some 246) (Some 12))"
    using t2 occ by (simp add: DAY_WIDTH_def jsPlus_simps jsTimes_simps)
  have b: "laneOccupancyAfter ws (take (Suc 1) [r1, r2]) = [Some 784]"
    using t2 occ by (simp add: DAY_WIDTH_def jsPlus_simps jsTimes_simps)
  have c: "\<not> jsGt (Some 153) (jsPlus (Some 246) (Some 12))"
    using t3 occ by (simp add: DAY_WIDTH_def jsPlus_simps jsTimes_simps)
  show ?thesis
    using h(1) occ l2 a b l3 c
    unfolding p2_def p3_def ws_def r1_def r2_def r3_def
    by (simp add: date_string_order3)
qed

lemma mapExperiments_Cons:
  "mapExperiments ws re (item # items) =
     (fst (positionExperiment ws re item) # fst (mapExperiments ws (snd (positionExperiment ws re item)) items),
      snd (mapExperiments ws (snd (positionExperiment ws re item)) items))"
  by (simp add: Let_def split: prod.splits)

lemma positionExperiment_item:
  "ExperimentItem.truncate (fst (positionExperiment ws re item)) = item"
  by (simp add: positionExperiment_def Let_def ExperimentItem.extend_def ExperimentItem.truncate_def)

lemma mapExperiments_items:
  "map ExperimentItem.truncate (fst (mapExperiments ws re items)) = items"
  by (induction items arbitrary: re)
    (simp_all add: mapExperiments_Cons positionExperiment_item del: mapExperiments.simps(2))

lemma startDate_truncate:
  "ExperimentItem.startDate (ExperimentItem.truncate p) = ExperimentItem.startDate p"
  by (simp add: ExperimentItem.truncate_def)

lemma date_truncate: "date (ReleaseItem.truncate p) = date p"
  by (simp add: ReleaseItem.truncate_def)

text \<open>
  Claim C10. The positioned experiments are in ascending order of their \<open>startDate\<close>
  strings and the positioned releases in ascending order of their \<open>date\<close> strings.
  The records with one and the same key appear in the order they have in the input
  list. The positioned experiments (rows included) depend on the experiment list and
  the window start only, the positioned releases (lanes included) on the release
  list and the window start only: neither depends on the current instant or on the
  other list.
\<close>

theorem layoutTimeline_order:
  "sorted (map ExperimentItem.startDate
      (positionedExperiments (layoutTimeline now experiments releases windowStartIso)))
   \<and> sorted (map date (positionedReleases (layoutTimeline now experiments releases windowStartIso)))
   \<and> filter (\<lambda>e. ExperimentItem.startDate e = key)
        (map ExperimentItem.truncate
          (positionedExperiments (layoutTimeline now experiments releases windowStartIso)))
       = filter (\<lambda>e. ExperimentItem.startDate e = key) experiments
   \<and> filter (\<lambda>r. date r = key)
        (map ReleaseItem.truncate
          (positionedReleases (layoutTimeline now experiments releases windowStartIso)))
       = filter (\<lambda>r. date r = key) releases
   \<and> positionedExperiments (layoutTimeline now' experiments releases' windowStartIso)
       = positionedExperiments (layoutTimeline now experiments releases windowStartIso)
   \<and> positionedReleases (layoutTimeline now' experiments' releases windowStartIso)
       = positionedReleases (layoutTimeline now experiments releases windowStartIso)"
proof -
  let ?L = "layoutTimeline now experiments releases windowStartIso"
  have pe: "map ExperimentItem.truncate (positionedExperiments ?L)
      = sort_key ExperimentItem.startDate experiments"
    unfolding positionedExperiments_layoutTimeline by (rule mapExperiments_items)
  have pr: "map ReleaseItem.truncate (positionedReleases ?L) = sort_key date releases"
    unfolding layoutTimeline_releases(1) by (rule mapReleases_items)
  have "map ExperimentItem.startDate (positionedExperiments ?L)
      = map ExperimentItem.startDate (map ExperimentItem.truncate (positionedExperiments ?L))"
    by (simp add: startDate_truncate)
  then have a: "sorted (map ExperimentItem.startDate (positionedExperiments ?L))"
    unfolding pe by (simp only: sorted_sort_key)
  have "map date (positionedReleases ?L) = map date (map ReleaseItem.truncate (positionedReleases ?L))"
    by (simp add: date_truncate)
  then have b: "sorted (map date (positionedReleases ?L))"
    unfolding pr by (simp only: sorted_sort_key)
  have c: "filter (\<lambda>e. ExperimentItem.startDate e = key)
        (map ExperimentItem.truncate (positionedExperiments ?L))
       = filter (\<lambda>e. ExperimentItem.startDate e = key) experiments"
    unfolding pe by (rule sort_key_stable)
  have d: "filter (\<lambda>r. date r = key) (map ReleaseItem.truncate (positionedReleases ?L))
       = filter (\<lambda>r. date r = key) releases"
    unfolding pr by (rule sort_key_stable)
  have e: "positionedExperiments (layoutTimeline now' experiments releases' windowStartIso)
       = positionedExperiments ?L"
    unfolding positionedExperiments_layoutTimeline ..
  have f: "positionedReleases (layoutTimeline now' experiments' releases windowStartIso)
       = positionedReleases ?L"
    unfolding layoutTimeline_releases(1) using mapReleases_independent by blast
  from a b c d e f show ?thesis by blast
qed

end
